theory Spec2Isabelle
  imports Main
begin

section \<open>Python strings and integers\<close>

text \<open>
  A Python \<open>str\<close> is modelled as a \<open>string\<close>; a character is a code point below 256,
  so the digits are \<open>0\<close> to \<open>9\<close> and the white space is what \<open>str.isspace\<close> accepts
  below 256. Code points from 256 on (other decimal digits, other spaces) are outside
  the model.
\<close>

definition is_space :: "char \<Rightarrow> bool" where
  "is_space c = (let n = of_char c :: nat in
     (9 \<le> n \<and> n \<le> 13) \<or> (28 \<le> n \<and> n \<le> 32) \<or> n = 133 \<or> n = 160)"

definition is_digit :: "char \<Rightarrow> bool" where
  "is_digit c = (let n = of_char c :: nat in 48 \<le> n \<and> n \<le> 57)"

definition digit_val :: "char \<Rightarrow> int" where
  "digit_val c = int (of_char c) - 48"

text \<open>\<open>s.strip()\<close>\<close>

definition py_strip :: "string \<Rightarrow> string" where
  "py_strip s = rev (dropWhile is_space (rev (dropWhile is_space s)))"

text \<open>\<open>s.split()\<close>: the maximal runs of characters that are not white space.\<close>

fun split_ws :: "string \<Rightarrow> string \<Rightarrow> string list" where
  "split_ws cur [] = (if cur = [] then [] else [rev cur])"
| "split_ws cur (c # cs) =
     (if is_space c then (if cur = [] then split_ws [] cs else rev cur # split_ws [] cs)
      else split_ws (c # cur) cs)"

definition py_split :: "string \<Rightarrow> string list" where
  "py_split s = split_ws [] s"

text \<open>\<open>s.split(sep)\<close> for a separator of one character: empty pieces are kept.\<close>

fun split_on :: "char \<Rightarrow> string \<Rightarrow> string \<Rightarrow> string list" where
  "split_on sep cur [] = [rev cur]"
| "split_on sep cur (c # cs) =
     (if c = sep then rev cur # split_on sep [] cs else split_on sep (c # cur) cs)"

definition py_split_sep :: "char \<Rightarrow> string \<Rightarrow> string list" where
  "py_split_sep sep s = split_on sep [] s"

text \<open>
  \<open>s.split(sep, 1)\<close> when \<open>sep in s\<close>: the text before the first separator and the text
  after it.
\<close>

definition py_split1 :: "char \<Rightarrow> string \<Rightarrow> string \<times> string" where
  "py_split1 sep s = (takeWhile (\<lambda>c. c \<noteq> sep) s, tl (dropWhile (\<lambda>c. c \<noteq> sep) s))"

text \<open>
  \<open>int(s)\<close> in base ten: surrounding white space is dropped, one sign is allowed, and
  the digits may be grouped by single underscores. \<open>None\<close> stands for \<open>ValueError\<close>.
  The white space that \<open>int\<close> drops does not include the separators 28 to 31. Under
  the interpreter's default limit (\<open>sys.int_max_str_digits\<close>, 4300) a text with more
  digits raises \<open>ValueError\<close> as well; sign, white space and underscores are not
  counted.
\<close>

definition max_str_digits :: nat where
  "max_str_digits = 4300"

definition is_int_space :: "char \<Rightarrow> bool" where
  "is_int_space c = (let n = of_char c :: nat in
     (9 \<le> n \<and> n \<le> 13) \<or> n = 32 \<or> n = 133 \<or> n = 160)"

fun digits_val :: "int \<Rightarrow> bool \<Rightarrow> string \<Rightarrow> int option" where
  "digits_val acc after_digit [] = (if after_digit then Some acc else None)"
| "digits_val acc after_digit (c # cs) =
     (if is_digit c then digits_val (acc * 10 + digit_val c) True cs
      else if c = CHR ''_'' \<and> after_digit \<and> cs \<noteq> [] \<and> is_digit (hd cs)
           then digits_val acc False cs
      else None)"

definition py_int :: "string \<Rightarrow> int option" where
  "py_int s = (case rev (dropWhile is_int_space (rev (dropWhile is_int_space s))) of
       [] \<Rightarrow> None
     | c # cs \<Rightarrow>
         if max_str_digits < length (filter is_digit (c # cs)) then None
         else if c = CHR ''-'' then map_option uminus (digits_val 0 False cs)
         else if c = CHR ''+'' then digits_val 0 False cs
         else digits_val 0 False (c # cs))"

section \<open>The cron scheduler (schedule.py)\<close>

subsection \<open>Parsing one field\<close>

text \<open>\<open>range(start, end + 1, step)\<close> for a positive step, as the list of its values.\<close>

definition py_range_incl :: "int \<Rightarrow> int \<Rightarrow> int \<Rightarrow> int list" where
  "py_range_incl start end step = filter (\<lambda>v. (v - start) mod step = 0) [start..end]"

text \<open>
  One comma-separated part of a field, after \<open>strip\<close> and the test for the empty part:
  \<open>None\<close> is the \<open>return set()\<close> of \<open>_parse_field\<close>, \<open>Some vs\<close> the values the part adds.
\<close>

definition parse_part :: "string \<Rightarrow> int \<Rightarrow> int \<Rightarrow> int list option" where
  "parse_part part0 min_v max_v =
     (case (if CHR ''/'' \<in> set part0
            then (case py_split1 (CHR ''/'') part0 of (base, step_s) \<Rightarrow>
                    (case py_int step_s of None \<Rightarrow> None
                     | Some st \<Rightarrow> Some (if base = [] then ''*'' else base, st)))
            else Some (part0, 1)) of
        None \<Rightarrow> None
      | Some (part, step) \<Rightarrow>
          (case (if part = ''*'' then Some (min_v, max_v)
                 else if CHR ''-'' \<in> set part
                 then (case py_split1 (CHR ''-'') part of (a, b) \<Rightarrow>
                         (case (py_int a, py_int b) of
                            (Some x, Some y) \<Rightarrow> Some (x, y)
                          | _ \<Rightarrow> None))
                 else (case py_int part of None \<Rightarrow> None | Some v \<Rightarrow> Some (v, v))) of
             None \<Rightarrow> None
           | Some (start, end) \<Rightarrow>
               if step \<le> 0 then None
               else Some (py_range_incl (max min_v start) (min max_v end) step)))"

text \<open>The loop of \<open>_parse_field\<close> over the parts, with the set built so far.\<close>

fun parse_parts :: "string list \<Rightarrow> int \<Rightarrow> int \<Rightarrow> int set \<Rightarrow> int set" where
  "parse_parts [] min_v max_v values = values"
| "parse_parts (p # ps) min_v max_v values =
     (let part = py_strip p in
      if part = [] then parse_parts ps min_v max_v values
      else (case parse_part part min_v max_v of
              None \<Rightarrow> {}
            | Some vs \<Rightarrow> parse_parts ps min_v max_v (values \<union> set vs)))"

definition parse_field :: "string \<Rightarrow> int \<Rightarrow> int \<Rightarrow> int set" where
  "parse_field field min_v max_v =
     (if field = ''*'' then set [min_v..max_v]
      else parse_parts (py_split_sep (CHR '','') field) min_v max_v {})"

subsection \<open>Instants and their civil fields\<close>

text \<open>
  The scheduler's datetimes all carry the fixed offset of +8:00 (\<open>_now_beijing\<close>). Such a
  datetime is the whole number of seconds from the epoch to it, rounded down, and its
  microsecond. The field tests read the whole second only, so the civil fields are
  functions of that number. They follow the standard library's proleptic Gregorian
  calendar: \<open>ord2ymd\<close> is its conversion of a day ordinal (1 is 0001-01-01) to year,
  month and day, and \<open>weekday\<close> counts Monday as 0.
\<close>

record datetime =
  dt_whole :: int
  dt_micro :: int

definition days_in_month_tab :: "int list" where
  "days_in_month_tab = [0, 31, 28, 31, 30, 31, 30, 31, 31, 30, 31, 30, 31]"

definition days_before_month_tab :: "int list" where
  "days_before_month_tab = [0, 0, 31, 59, 90, 120, 151, 181, 212, 243, 273, 304, 334]"

definition ord2ymd :: "int \<Rightarrow> int \<times> int \<times> int" where
  "ord2ymd ordinal =
     (let n0 = ordinal - 1;
          n400 = n0 div 146097; n1 = n0 mod 146097;
          n100 = n1 div 36524; n2 = n1 mod 36524;
          n4 = n2 div 1461; n3 = n2 mod 1461;
          ny = n3 div 365; n = n3 mod 365;
          year = n400 * 400 + 1 + n100 * 100 + n4 * 4 + ny
      in if ny = 4 \<or> n100 = 4 then (year - 1, 12, 31)
         else
           let leapyear = (ny = 3 \<and> (n4 \<noteq> 24 \<or> n100 = 3));
               month = (n + 50) div 32;
               preceding = days_before_month_tab ! nat month
                           + (if month > 2 \<and> leapyear then 1 else 0)
           in if preceding > n
              then let month' = month - 1;
                       preceding' = preceding - (days_in_month_tab ! nat month'
                                      + (if month' = 2 \<and> leapyear then 1 else 0))
                   in (year, month', n - preceding' + 1)
              else (year, month, n - preceding + 1))"

definition tz_offset :: int where
  "tz_offset = 8 * 3600"

definition local_seconds :: "int \<Rightarrow> int" where
  "local_seconds ts = ts + tz_offset"

definition dt_ordinal :: "int \<Rightarrow> int" where
  "dt_ordinal ts = local_seconds ts div 86400 + 719163"

definition dt_second :: "int \<Rightarrow> int" where
  "dt_second ts = local_seconds ts mod 60"

definition dt_minute :: "int \<Rightarrow> int" where
  "dt_minute ts = (local_seconds ts div 60) mod 60"

definition dt_hour :: "int \<Rightarrow> int" where
  "dt_hour ts = (local_seconds ts div 3600) mod 24"

definition dt_day :: "int \<Rightarrow> int" where
  "dt_day ts = snd (snd (ord2ymd (dt_ordinal ts)))"

definition dt_month :: "int \<Rightarrow> int" where
  "dt_month ts = fst (snd (ord2ymd (dt_ordinal ts)))"

definition dt_weekday :: "int \<Rightarrow> int" where
  "dt_weekday ts = (dt_ordinal ts + 6) mod 7"

text \<open>
  A datetime lies between 0001-01-01 00:00:00 and 9999-12-31 23:59:59.999999 on its own
  clock; adding a \<open>timedelta\<close> that leaves this range raises \<open>OverflowError\<close>.
\<close>

datatype error = OverflowError | ValueError | RuntimeError | TypeError | KeyError | IndexError
  | AttributeError | OSError | MemoryError

definition dt_valid :: "int \<Rightarrow> bool" where
  "dt_valid ts = (- 62135596800 \<le> local_seconds ts \<and> local_seconds ts \<le> 253402300799)"

definition dt_ok :: "datetime \<Rightarrow> bool" where
  "dt_ok d = (dt_valid (dt_whole d) \<and> 0 \<le> dt_micro d \<and> dt_micro d < 1000000)"

text \<open>\<open>dt + timedelta(seconds=k)\<close>: the microsecond stays.\<close>

definition dt_add_seconds :: "datetime \<Rightarrow> int \<Rightarrow> error + datetime" where
  "dt_add_seconds d k =
     (if dt_valid (dt_whole d + k) then Inr (d\<lparr>dt_whole := dt_whole d + k\<rparr>)
      else Inl OverflowError)"

subsection \<open>The time stamp of a datetime\<close>

text \<open>
  \<open>dt.timestamp()\<close> of a datetime with an offset is \<open>(dt - epoch).total_seconds()\<close>: the
  microseconds from the epoch to \<open>dt\<close>, an integer, divided by \<open>10 ** 6\<close>. The quotient of
  two integers is the double nearest to the exact quotient, ties going to the even
  significand of 53 bits. \<open>int\<close> then cuts the fraction of that double off, towards
  zero. For positive \<open>p\<close> and \<open>d\<close>, \<open>floor_log2 p d\<close> is the exponent \<open>e\<close> with
  \<open>2 ^ e \<le> p / d < 2 ^ (e + 1)\<close>; the double nearest to \<open>p / d\<close> is a multiple \<open>m\<close> of
  \<open>2 ^ (e - 52)\<close>, and \<open>double_trunc p d\<close> is its integer part. The quotients of the
  datetimes in range stay below \<open>2 ^ 38\<close> and are at least \<open>10 ** -6\<close> when not zero, far
  from the overflow and the subnormal numbers of the double format.
\<close>

function bit_length :: "int \<Rightarrow> nat" where
  "bit_length n = (if n \<le> 0 then 0 else Suc (bit_length (n div 2)))"
  by pat_completeness auto
termination
  by (relation "measure nat") auto

declare bit_length.simps [simp del]

definition round_half_even :: "int \<Rightarrow> int \<Rightarrow> int" where
  "round_half_even a b =
     (let q = a div b; r = a mod b
      in if 2 * r < b then q
         else if b < 2 * r then q + 1
         else if even q then q else q + 1)"

definition pow2_le :: "int \<Rightarrow> int \<Rightarrow> int \<Rightarrow> bool" where
  "pow2_le e p d = (if 0 \<le> e then 2 ^ nat e * d \<le> p else d \<le> p * 2 ^ nat (- e))"

definition floor_log2 :: "int \<Rightarrow> int \<Rightarrow> int" where
  "floor_log2 p d =
     (let e0 = int (bit_length p) - int (bit_length d)
      in if pow2_le e0 p d then e0 else e0 - 1)"

definition double_trunc :: "int \<Rightarrow> int \<Rightarrow> int" where
  "double_trunc p d =
     (let k = 52 - floor_log2 p d
      in if 0 \<le> k then round_half_even (p * 2 ^ nat k) d div 2 ^ nat k
         else round_half_even p (d * 2 ^ nat (- k)) * 2 ^ nat (- k))"

text \<open>\<open>int(n / d)\<close> for integers \<open>n\<close> and \<open>d\<close> with \<open>d\<close> positive.\<close>

definition int_of_quotient :: "int \<Rightarrow> int \<Rightarrow> int" where
  "int_of_quotient n d =
     (if n = 0 then 0
      else if 0 < n then double_trunc n d
      else - double_trunc (- n) d)"

text \<open>\<open>int(dt.timestamp())\<close>\<close>

definition timestamp_int :: "datetime \<Rightarrow> int" where
  "timestamp_int d = int_of_quotient (dt_whole d * 1000000 + dt_micro d) 1000000"

subsection \<open>Matching, validity and the forward search\<close>

text \<open>
  \<open>_matches(cron, dt)\<close> and the loop of \<open>next_run_ts\<close> read the second, minute, hour, day,
  month and weekday of a datetime, never its microsecond: \<open>matches\<close> and \<open>fields_match\<close>
  take the whole second of the datetime.
\<close>

definition matches :: "string \<Rightarrow> int \<Rightarrow> bool" where
  "matches cron dt =
     (let parts = map py_strip (py_split (py_strip cron)) in
      if length parts \<noteq> 6 then False
      else
        let sec_ok = dt_second dt \<in> parse_field (parts ! 0) 0 59;
            min_ok = dt_minute dt \<in> parse_field (parts ! 1) 0 59;
            hour_ok = dt_hour dt \<in> parse_field (parts ! 2) 0 23;
            dom_ok = dt_day dt \<in> parse_field (parts ! 3) 1 31;
            month_ok = dt_month dt \<in> parse_field (parts ! 4) 1 12;
            dow_vals = parse_field (parts ! 5) 0 7;
            cron_dow = (dt_weekday dt + 1) mod 7;
            dow_vals' = (if 7 \<in> dow_vals then insert 0 dow_vals else dow_vals);
            dow_ok = cron_dow \<in> dow_vals'
        in sec_ok \<and> min_ok \<and> hour_ok \<and> dom_ok \<and> month_ok \<and> dow_ok)"

definition cron_ranges :: "(int \<times> int) list" where
  "cron_ranges = [(0, 59), (0, 59), (0, 23), (1, 31), (1, 12), (0, 7)]"

fun fields_valid :: "(string \<times> int \<times> int) list \<Rightarrow> bool" where
  "fields_valid [] = True"
| "fields_valid ((field, lo, hi) # rest) =
     (if parse_field (py_strip field) lo hi = {} then False else fields_valid rest)"

definition is_valid_cron :: "string \<Rightarrow> bool" where
  "is_valid_cron expr =
     (let parts = py_split (py_strip expr) in
      if length parts \<noteq> 6 then False else fields_valid (zip parts cron_ranges))"

fun collect_sets :: "(string \<times> int \<times> int) list \<Rightarrow> int set list \<Rightarrow> int set list option" where
  "collect_sets [] values = Some values"
| "collect_sets ((field, lo, hi) # rest) values =
     (let parsed = parse_field (py_strip field) lo hi in
      if parsed = {} then None else collect_sets rest (values @ [parsed]))"

type_synonym cron_fields = "int set \<times> int set \<times> int set \<times> int set \<times> int set \<times> int set"

definition cron_sets :: "string \<Rightarrow> cron_fields option" where
  "cron_sets expr =
     (let parts = py_split (py_strip expr) in
      if length parts \<noteq> 6 then None
      else (case collect_sets (zip parts cron_ranges) [] of
              None \<Rightarrow> None
            | Some values \<Rightarrow>
                Some (values ! 0, values ! 1, values ! 2, values ! 3, values ! 4, values ! 5)))"

text \<open>The body of the scan loop: the six tests that \<open>continue\<close> on failure.\<close>

fun fields_match :: "cron_fields \<Rightarrow> int \<Rightarrow> bool" where
  "fields_match (sec_set, min_set, hour_set, dom_set, month_set, dow_set) dt =
     (if dt_second dt \<notin> sec_set then False
      else if dt_minute dt \<notin> min_set then False
      else if dt_hour dt \<notin> hour_set then False
      else if dt_day dt \<notin> dom_set then False
      else if dt_month dt \<notin> month_set then False
      else if (dt_weekday dt + 1) mod 7 \<notin> dow_set then False
      else True)"

text \<open>
  \<open>for offset in range(max_scan_seconds)\<close>, from the offset reached and with the number of
  iterations left; running out of iterations is the final \<open>return 0\<close>. A match returns
  \<open>int(dt.timestamp())\<close> of the datetime tested, which has the microsecond of \<open>start\<close>.
\<close>

fun scan :: "cron_fields \<Rightarrow> datetime \<Rightarrow> nat \<Rightarrow> nat \<Rightarrow> error + int" where
  "scan fs start offset 0 = Inr 0"
| "scan fs start offset (Suc left) =
     (case dt_add_seconds start (int offset) of
        Inl e \<Rightarrow> Inl e
      | Inr dt \<Rightarrow>
          if fields_match fs (dt_whole dt) then Inr (timestamp_int dt)
          else scan fs start (Suc offset) left)"

text \<open>
  \<open>next_run_ts(expr, now)\<close> with the default horizon of 31 days. \<open>now\<close> is any datetime of
  the scheduler's zone; the default, \<open>_now_beijing()\<close>, is the reading of the clock with
  its microsecond.
\<close>

definition max_scan_seconds :: nat where
  "max_scan_seconds = 31 * 24 * 3600"

definition next_run_ts :: "string \<Rightarrow> datetime \<Rightarrow> error + int" where
  "next_run_ts expr now =
     (case cron_sets expr of
        None \<Rightarrow> Inr 0
      | Some (sec_set, min_set, hour_set, dom_set, month_set, dow_set) \<Rightarrow>
          let dow_set' = (if 7 \<in> dow_set then insert 0 dow_set else dow_set) in
          (case dt_add_seconds now 1 of
             Inl e \<Rightarrow> Inl e
           | Inr start \<Rightarrow>
               scan (sec_set, min_set, hour_set, dom_set, month_set, dow_set')
                    start 0 max_scan_seconds))"

text \<open>
  The adjustment both \<open>_matches\<close> and \<open>next_run_ts\<close> make to the day-of-week set: a 7
  brings the 0 of Sunday with it.
\<close>

definition add_sunday :: "cron_fields \<Rightarrow> cron_fields" where
  "add_sunday fs = (case fs of (s, m, h, d, mo, dw) \<Rightarrow>
      (s, m, h, d, mo, if 7 \<in> dw then insert 0 dw else dw))"

section \<open>Run history of a schedule (schedule.py)\<close>

text \<open>
  A schedule is a JSON object; a key that may be missing or \<open>null\<close> is an optional
  field. The clock read by \<open>_record_result\<close> is the parameter \<open>now_ts\<close>; its line in the
  log, whose failure is swallowed, changes nothing in the schedule and is left out.
\<close>

record run_entry =
  entry_ts :: int
  entry_ok :: bool
  entry_output :: string

record schedule =
  sched_id :: "string option"
  sched_task_id :: string
  sched_cron :: string
  sched_enabled :: bool
  last_run_ts :: "int option"
  history :: "run_entry list option"

text \<open>\<open>x or []\<close>\<close>

definition or_empty :: "'a list option \<Rightarrow> 'a list" where
  "or_empty h = (case h of None \<Rightarrow> [] | Some xs \<Rightarrow> xs)"

text \<open>\<open>xs[-n:]\<close> for a positive \<open>n\<close>: the last \<open>n\<close> elements, all of them when there are fewer.\<close>

definition py_last_n :: "nat \<Rightarrow> 'a list \<Rightarrow> 'a list" where
  "py_last_n n xs = drop (length xs - n) xs"

definition record_result :: "schedule \<Rightarrow> bool \<Rightarrow> string \<Rightarrow> int \<Rightarrow> schedule" where
  "record_result sched ok_flag out now_ts =
     (let history0 = or_empty (history sched);
          entry = \<lparr>entry_ts = now_ts, entry_ok = ok_flag, entry_output = out\<rparr>;
          history1 = history0 @ [entry];
          history2 = py_last_n 10 history1
      in sched\<lparr>history := Some history2, last_run_ts := Some (entry_ts entry)\<rparr>)"

text \<open>\<open>_find_index\<close>, counting from \<open>idx\<close>; \<open>- 1\<close> when no item has the id.\<close>

fun find_index_from :: "int \<Rightarrow> schedule list \<Rightarrow> string \<Rightarrow> int" where
  "find_index_from idx [] sid = - 1"
| "find_index_from idx (it # items) sid =
     (if sched_id it = Some sid then idx else find_index_from (idx + 1) items sid)"

definition find_index :: "schedule list \<Rightarrow> string \<Rightarrow> int" where
  "find_index items sid = find_index_from 0 items sid"

text \<open>
  \<open>update_schedule_run_state\<close> on the stored collection \<open>items\<close> (what \<open>_load_json\<close> reads
  and \<open>_dump_json\<close> writes back): the flag returned and the collection stored afterwards.
\<close>

definition update_schedule_run_state ::
  "schedule list \<Rightarrow> string \<Rightarrow> int \<Rightarrow> run_entry list \<Rightarrow> bool \<times> schedule list" where
  "update_schedule_run_state items sid last_ts hist =
     (if sid = [] then (False, items)
      else
        let idx = find_index items sid in
        if idx < 0 then (False, items)
        else
          let item = items ! nat idx;
              item' = item\<lparr>last_run_ts := Some last_ts, history := Some hist\<rparr>
          in (True, items[nat idx := item']))"

text \<open>
  One run recorded by the tick loop: \<open>_record_result\<close> on the schedule read at this
  tick, then \<open>update_schedule_run_state\<close> with its id, time stamp and history.
\<close>

definition record_and_store ::
  "schedule list \<Rightarrow> schedule \<Rightarrow> bool \<Rightarrow> string \<Rightarrow> int \<Rightarrow> bool \<times> schedule list" where
  "record_and_store items sched ok_flag out now_ts =
     (let sched' = record_result sched ok_flag out now_ts in
      update_schedule_run_state items
        (case sched_id sched' of None \<Rightarrow> [] | Some i \<Rightarrow> i)
        (case last_run_ts sched' of None \<Rightarrow> 0 | Some t \<Rightarrow> t)
        (or_empty (history sched')))"

text \<open>A sequence of runs of one schedule, each given by its flag, output and time.\<close>

fun record_runs :: "schedule \<Rightarrow> (bool \<times> string \<times> int) list \<Rightarrow> schedule" where
  "record_runs sched [] = sched"
| "record_runs sched ((ok_flag, out, now_ts) # rest) =
     record_runs (record_result sched ok_flag out now_ts) rest"

definition entry_of :: "bool \<times> string \<times> int \<Rightarrow> run_entry" where
  "entry_of r = (case r of (ok_flag, out, now_ts) \<Rightarrow> \<lparr>entry_ts = now_ts, entry_ok = ok_flag, entry_output = out\<rparr>)"

section \<open>The session registry (tasks\_runner.py)\<close>

text \<open>
  \<open>_sessions\<close> is a dictionary, which keeps its keys in the order of their insertion:
  a list of pairs with distinct keys. Assigning to a key that is present keeps its
  place, a new key goes to the end, and \<open>del\<close> removes the key. \<open>_session_offsets\<close> is
  only looked up by key, so it is a map.
\<close>

fun dict_assign :: "'k \<Rightarrow> 'v \<Rightarrow> ('k \<times> 'v) list \<Rightarrow> ('k \<times> 'v) list" where
  "dict_assign k v [] = [(k, v)]"
| "dict_assign k v ((k', v') # rest) =
     (if k' = k then (k, v) # rest else (k', v') # dict_assign k v rest)"

definition dict_del :: "'k \<Rightarrow> ('k \<times> 'v) list \<Rightarrow> ('k \<times> 'v) list" where
  "dict_del k d = filter (\<lambda>p. fst p \<noteq> k) d"

record registry =
  sessions :: "(string \<times> string list) list"
  session_offsets :: "string \<rightharpoonup> int"

definition MAX_SESSIONS :: nat where
  "MAX_SESSIONS = 50"

definition empty_registry :: registry where
  "empty_registry = \<lparr>sessions = [], session_offsets = Map.empty\<rparr>"

text \<open>
  \<open>new_session\<close>: \<open>sid\<close> is the identifier drawn by \<open>uuid4\<close>, and \<open>log_size\<close> what
  \<open>log_file().stat().st_size\<close> gives, \<open>None\<close> when it raises (no log file yet). The
  result is the registry after the call; the identifier returned is \<open>sid\<close>. The line the
  function then writes to the log is not part of the registry and is left out.
\<close>

definition new_session :: "string \<Rightarrow> int option \<Rightarrow> registry \<Rightarrow> registry" where
  "new_session sid log_size reg =
     (let reg1 =
            (if length (sessions reg) \<ge> MAX_SESSIONS
             then let oldest_sid = fst (hd (sessions reg)) in
                  reg\<lparr>sessions := dict_del oldest_sid (sessions reg),
                      session_offsets := (session_offsets reg)(oldest_sid := None)\<rparr>
             else reg);
          reg2 = reg1\<lparr>sessions := dict_assign sid [] (sessions reg1)\<rparr>
      in reg2\<lparr>session_offsets :=
               (session_offsets reg2)(sid \<mapsto> (case log_size of Some n \<Rightarrow> n | None \<Rightarrow> 0))\<rparr>)"

text \<open>
  What \<open>send_interactive\<close> does to the registry once the reply is collected: the new
  offset is stored and the lines are appended to the session, or \<open>ValueError\<close> is raised
  for an unknown session.
\<close>

definition session_record :: "string \<Rightarrow> int \<Rightarrow> string list \<Rightarrow> registry \<Rightarrow> error + registry" where
  "session_record sid offset lines reg =
     (case map_of (sessions reg) sid of
        None \<Rightarrow> Inl ValueError
      | Some old \<Rightarrow>
          Inr (reg\<lparr>session_offsets := (session_offsets reg)(sid \<mapsto> offset),
                   sessions := dict_assign sid (old @ lines) (sessions reg)\<rparr>))"

text \<open>A registry holding 50 sessions, created in the order of their numbers.\<close>

definition numbered_sid :: "nat \<Rightarrow> string" where
  "numbered_sid n = replicate (Suc n) (CHR 0x73)"

definition full_registry :: registry where
  "full_registry = \<lparr>sessions = map (\<lambda>n. (numbered_sid n, [])) [0..<50],
                     session_offsets = Map.empty\<rparr>"

text \<open>A sequence of \<open>new_session\<close> calls, each with its identifier and log size.\<close>

fun new_sessions :: "(string \<times> int option) list \<Rightarrow> registry \<Rightarrow> registry" where
  "new_sessions [] reg = reg"
| "new_sessions ((sid, log_size) # rest) reg = new_sessions rest (new_session sid log_size reg)"

section \<open>Reading the tail of the log (autoglm\_process.py)\<close>

text \<open>
  The log file is its bytes, \<open>None\<close> when the file does not exist. The file is opened
  for reading in binary mode, so \<open>f\<close> is a buffered reader of the standard library on
  a 64-bit host. What the host allows is the parameter \<open>host\<close>: the largest buffer the
  interpreter can still allocate and the largest offset the file system accepts
  beyond the end of a file.

  \<open>f.seek(offset)\<close> with an offset that is not negative accepts an offset up to the
  size of the file; beyond it, it raises \<open>ValueError\<close> when the offset does not fit 63
  bits and \<open>OSError\<close> when the file system refuses the offset.

  \<open>f.read(n)\<close> raises \<open>OverflowError\<close> when \<open>n\<close> does not fit a signed 64-bit integer and
  \<open>ValueError\<close> for any other \<open>n\<close> below -1; it returns all the bytes from the position
  for -1. Otherwise it allocates a buffer of \<open>n\<close> bytes before reading, which raises
  \<open>OverflowError\<close> when \<open>n\<close> with the 33 bytes of the object header does not fit 63
  bits, and \<open>MemoryError\<close> when the host cannot provide the buffer; then it returns at
  most \<open>n\<close> bytes from the position.

  The decoding of the bytes read (\<open>data.decode("utf-8", errors="replace")\<close>, which does
  not raise) is the parameter \<open>decode\<close>.
\<close>

record host =
  alloc_max :: int
  seek_max :: int

definition file_seek :: "host \<Rightarrow> int \<Rightarrow> int \<Rightarrow> error option" where
  "file_seek h file_size offset =
     (if offset \<le> file_size then None
      else if 2 ^ 63 \<le> offset then Some ValueError
      else if seek_max h < offset then Some OSError
      else None)"

definition file_read :: "host \<Rightarrow> string \<Rightarrow> int \<Rightarrow> error + string" where
  "file_read h rest n =
     (if n < - (2 ^ 63) then Inl OverflowError
      else if n < - 1 then Inl ValueError
      else if n = - 1 then Inr rest
      else if 2 ^ 63 - 1 - 33 < n then Inl OverflowError
      else if alloc_max h < n then Inl MemoryError
      else Inr (take (nat n) rest))"

definition tail_log ::
  "host \<Rightarrow> (string \<Rightarrow> string) \<Rightarrow> string option \<Rightarrow> int \<Rightarrow> int \<Rightarrow> error + int \<times> string" where
  "tail_log h decode lf offset max_bytes =
     (case lf of
        None \<Rightarrow> Inr (0, [])
      | Some content \<Rightarrow>
          let size = int (length content);
              offset' = (if offset < 0 \<or> offset > size then max 0 (size - max_bytes) else offset)
          in (case file_seek h size offset' of
                Some e \<Rightarrow> Inl e
              | None \<Rightarrow>
                  (case file_read h (drop (nat offset') content) max_bytes of
                     Inl e \<Rightarrow> Inl e
                   | Inr data \<Rightarrow>
                       let new_offset = offset' + int (length data)
                       in Inr (new_offset, decode data))))"

text \<open>A host with room for buffers of 4 GiB and offsets up to 1 TiB.\<close>

definition small_host :: host where
  "small_host = \<lparr>alloc_max = 2 ^ 32, seek_max = 2 ^ 40\<rparr>"

section \<open>Stopping the supervised process (autoglm\_process.py)\<close>

text \<open>
  The supervisor's own state is the pid file (its text, \<open>None\<close> when the file is
  absent) and the process handle \<open>_proc\<close>. What it does to the operating system is
  recorded, in order, in a trace: the signals sent with \<open>os.kill\<close> (signal 0 is the
  liveness probe of \<open>_is_running\<close>), the pauses of 0.2 seconds and the closing of the
  handle's input stream (a pipe, so it is always there to close). The operating
  system is a parameter: \<open>kill_ok\<close> tells, from the trace so far, whether an \<open>os.kill\<close>
  returns (rather than raises), and \<open>poll_exited\<close> whether \<open>_proc.poll()\<close> reports that
  the child has exited. The pid file is taken to be removable whenever it exists.
\<close>

datatype signal = SIG0 | SIGTERM | SIGKILL

datatype os_event = Kill int signal | Sleep_ms nat | Close_stdin

record os_env =
  kill_ok :: "os_event list \<Rightarrow> int \<Rightarrow> signal \<Rightarrow> bool"
  poll_exited :: "os_event list \<Rightarrow> bool"

datatype proc_handle = Popen

record supervisor =
  pid_file :: "string option"
  proc :: "proc_handle option"
  trace :: "os_event list"

text \<open>\<open>os.kill(pid, sig)\<close>: the call is recorded; the flag is whether it returned.\<close>

definition os_kill :: "os_env \<Rightarrow> int \<Rightarrow> signal \<Rightarrow> supervisor \<Rightarrow> bool \<times> supervisor" where
  "os_kill env pid sig s = (kill_ok env (trace s) pid sig, s\<lparr>trace := trace s @ [Kill pid sig]\<rparr>)"

text \<open>\<open>_is_running\<close>\<close>

definition is_running :: "os_env \<Rightarrow> int \<Rightarrow> supervisor \<Rightarrow> bool \<times> supervisor" where
  "is_running env pid s = os_kill env pid SIG0 s"

text \<open>\<open>time.sleep(0.2)\<close>\<close>

definition sleep_200 :: "supervisor \<Rightarrow> supervisor" where
  "sleep_200 s = s\<lparr>trace := trace s @ [Sleep_ms 200]\<rparr>"

text \<open>
  \<open>status\<close>: the pair of \<open>running\<close> and \<open>pid\<close> of the \<open>ProcessStatus\<close> returned, and
  the state afterwards. A pid file that does not hold an integer gives no pid.
\<close>

definition status :: "os_env \<Rightarrow> supervisor \<Rightarrow> (bool \<times> int option) \<times> supervisor" where
  "status env s =
     (let pid = (case pid_file s of None \<Rightarrow> None | Some text \<Rightarrow> py_int (py_strip text));
          (running, s1) =
             (case pid of
                None \<Rightarrow> (False, s)
              | Some p \<Rightarrow> if p = 0 then (False, s) else is_running env p s);
          (pid', s2) =
             (case pid of
                None \<Rightarrow> (pid, s1)
              | Some p \<Rightarrow> if p \<noteq> 0 \<and> \<not> running then (None, s1\<lparr>pid_file := None\<rparr>)
                          else (pid, s1));
          s3 = (case proc s2 of
                  None \<Rightarrow> s2
                | Some h \<Rightarrow> if poll_exited env (trace s2) then s2\<lparr>proc := None\<rparr> else s2)
      in ((running, pid'), s3))"

text \<open>
  The polling loop of \<open>stop\<close>, with the number of rounds left: a round probes the
  process and, when it is still alive, pauses.
\<close>

fun wait_exit :: "os_env \<Rightarrow> int \<Rightarrow> nat \<Rightarrow> supervisor \<Rightarrow> supervisor" where
  "wait_exit env pid 0 s = s"
| "wait_exit env pid (Suc n) s =
     (case is_running env pid s of
        (alive, s1) \<Rightarrow> if \<not> alive then s1 else wait_exit env pid n (sleep_200 s1))"

datatype stop_message = Nothing_to_stop | Stop_failed | Stopped

definition stop :: "os_env \<Rightarrow> supervisor \<Rightarrow> (bool \<times> stop_message) \<times> supervisor" where
  "stop env s =
     (case status env s of
        ((running, st_pid), s0) \<Rightarrow>
          (case st_pid of
             None \<Rightarrow> ((False, Nothing_to_stop), s0)
           | Some pid \<Rightarrow>
               if pid = 0 then ((False, Nothing_to_stop), s0)
               else
                 (case os_kill env pid SIGTERM s0 of
                    (sent, s1) \<Rightarrow>
                      if \<not> sent then ((False, Stop_failed), s1)
                      else
                        let s2 = wait_exit env pid 30 s1;
                            (alive, s3) = is_running env pid s2;
                            s4 = (if alive then snd (os_kill env pid SIGKILL s3) else s3);
                            s5 = s4\<lparr>pid_file := None\<rparr>;
                            s6 = (case proc s5 of
                                    None \<Rightarrow> s5
                                  | Some h \<Rightarrow> s5\<lparr>trace := trace s5 @ [Close_stdin]\<rparr>);
                            s7 = s6\<lparr>proc := None\<rparr>
                        in ((True, Stopped), s7))))"




section \<open>The step interpreter (tasks\_runner.py, adb.py)\<close>

subsection \<open>Values of step fields and parameters\<close>

text \<open>
  Steps and parameters come from JSON: a field holds \<open>null\<close>, a boolean, an integer or a
  string. Numbers with a fraction, arrays and objects as field values are outside the
  model. The integers are those that the JSON reader delivers, of at most 4300 digits
  under the interpreter's default limit, so that \<open>str\<close> of them does not raise. A step
  and a parameter mapping are dictionaries from names to such values.
\<close>

datatype pyval = VNone | VBool bool | VInt int | VStr string

type_synonym pydict = "string \<rightharpoonup> pyval"

text \<open>\<open>d.get(key, default)\<close>\<close>

definition dict_get :: "pydict \<Rightarrow> string \<Rightarrow> pyval \<Rightarrow> pyval" where
  "dict_get d key dflt = (case d key of None \<Rightarrow> dflt | Some v \<Rightarrow> v)"

text \<open>The truth value of a value, and \<open>x or y\<close>.\<close>

fun truthy :: "pyval \<Rightarrow> bool" where
  "truthy VNone = False"
| "truthy (VBool b) = b"
| "truthy (VInt n) = (n \<noteq> 0)"
| "truthy (VStr s) = (s \<noteq> [])"

definition py_or :: "pyval \<Rightarrow> pyval \<Rightarrow> pyval" where
  "py_or x y = (if truthy x then x else y)"

text \<open>\<open>str(x)\<close>, with the decimal digits of an integer.\<close>

function show_nat :: "nat \<Rightarrow> string" where
  "show_nat n = (if n < 10 then [char_of (48 + n)]
                 else show_nat (n div 10) @ [char_of (48 + n mod 10)])"
  by pat_completeness auto
termination
  by (relation "measure id") auto

definition show_int :: "int \<Rightarrow> string" where
  "show_int i = (if i < 0 then CHR ''-'' # show_nat (nat (- i)) else show_nat (nat i))"

fun py_str :: "pyval \<Rightarrow> string" where
  "py_str VNone = ''None''"
| "py_str (VBool b) = (if b then ''True'' else ''False'')"
| "py_str (VInt n) = show_int n"
| "py_str (VStr s) = s"

text \<open>\<open>int(x)\<close>\<close>

fun int_of :: "pyval \<Rightarrow> error + int" where
  "int_of VNone = Inl TypeError"
| "int_of (VBool b) = Inr (if b then 1 else 0)"
| "int_of (VInt n) = Inr n"
| "int_of (VStr s) = (case py_int s of None \<Rightarrow> Inl ValueError | Some n \<Rightarrow> Inr n)"

subsection \<open>Rendering a template: \<open>str.format\<close> with keyword arguments only\<close>

text \<open>
  \<open>value.format(**params)\<close> reads the template from left to right. Text outside braces
  is copied, \<open>{{\<close> and \<open>}}\<close> stand for one brace, and a single brace out of place raises
  \<open>ValueError\<close>. A replacement field runs from \<open>{\<close> to its closing \<open>}\<close>: a field name, then
  optionally \<open>!\<close> with a conversion character, then optionally \<open>:\<close> with a format
  specification, in which braces nest. The argument name is the field name up to its
  first \<open>.\<close> or \<open>[\<close>. As there are no positional arguments, an empty or numeric argument
  name raises \<open>IndexError\<close>, and a name that is not a key of the parameters raises
  \<open>KeyError\<close>. A field that is just a name is replaced by \<open>str\<close> of the value. How a
  value is rendered under attribute or index access, a conversion or a format
  specification is the library's business and is the parameter \<open>render\<close> here.
\<close>

type_synonym renderer = "string \<Rightarrow> char option \<Rightarrow> string \<Rightarrow> pyval \<Rightarrow> pydict \<Rightarrow> error + string"

datatype fmt_mode =
    Lit
  | After_open
  | After_close
  | In_name string bool
  | After_bang string
  | After_conv string char
  | In_spec string "char option" string nat

definition replace_field ::
  "renderer \<Rightarrow> pydict \<Rightarrow> string \<Rightarrow> char option \<Rightarrow> string \<Rightarrow> error + string" where
  "replace_field render params field_name conv spec =
     (let arg_name = takeWhile (\<lambda>c. c \<noteq> CHR ''.'' \<and> c \<noteq> CHR ''['') field_name;
          accessors = dropWhile (\<lambda>c. c \<noteq> CHR ''.'' \<and> c \<noteq> CHR ''['') field_name
      in if arg_name = [] \<or> list_all is_digit arg_name then Inl IndexError
         else (case params arg_name of
                 None \<Rightarrow> Inl KeyError
               | Some v \<Rightarrow>
                   if accessors = [] \<and> conv = None \<and> spec = [] then Inr (py_str v)
                   else render accessors conv spec v params))"

text \<open>
  The scanner, with the output so far and the name and the specification being read
  kept in reverse.
\<close>

fun fmt_scan :: "renderer \<Rightarrow> pydict \<Rightarrow> fmt_mode \<Rightarrow> string \<Rightarrow> string \<Rightarrow> error + string" where
  "fmt_scan render params mode acc [] =
     (case mode of Lit \<Rightarrow> Inr (rev acc) | _ \<Rightarrow> Inl ValueError)"
| "fmt_scan render params mode acc (c # cs) =
     (case mode of
        Lit \<Rightarrow>
          if c = CHR ''{'' then fmt_scan render params After_open acc cs
          else if c = CHR ''}'' then fmt_scan render params After_close acc cs
          else fmt_scan render params Lit (c # acc) cs
      | After_open \<Rightarrow>
          if c = CHR ''{'' then fmt_scan render params Lit (c # acc) cs
          else if c = CHR ''['' then fmt_scan render params (In_name [c] True) acc cs
          else if c = CHR ''}'' then
            (case replace_field render params [] None [] of
               Inl e \<Rightarrow> Inl e
             | Inr text \<Rightarrow> fmt_scan render params Lit (rev text @ acc) cs)
          else if c = CHR '':'' then fmt_scan render params (In_spec [] None [] 1) acc cs
          else if c = CHR ''!'' then fmt_scan render params (After_bang []) acc cs
          else fmt_scan render params (In_name [c] False) acc cs
      | After_close \<Rightarrow>
          if c = CHR ''}'' then fmt_scan render params Lit (c # acc) cs
          else Inl ValueError
      | In_name name in_brackets \<Rightarrow>
          if in_brackets then fmt_scan render params (In_name (c # name) (c \<noteq> CHR '']'')) acc cs
          else if c = CHR ''{'' then Inl ValueError
          else if c = CHR ''['' then fmt_scan render params (In_name (c # name) True) acc cs
          else if c = CHR ''}'' then
            (case replace_field render params (rev name) None [] of
               Inl e \<Rightarrow> Inl e
             | Inr text \<Rightarrow> fmt_scan render params Lit (rev text @ acc) cs)
          else if c = CHR '':'' then fmt_scan render params (In_spec name None [] 1) acc cs
          else if c = CHR ''!'' then fmt_scan render params (After_bang name) acc cs
          else fmt_scan render params (In_name (c # name) False) acc cs
      | After_bang name \<Rightarrow> fmt_scan render params (After_conv name c) acc cs
      | After_conv name conv \<Rightarrow>
          if c = CHR ''}'' then
            (case replace_field render params (rev name) (Some conv) [] of
               Inl e \<Rightarrow> Inl e
             | Inr text \<Rightarrow> fmt_scan render params Lit (rev text @ acc) cs)
          else if c = CHR '':'' then fmt_scan render params (In_spec name (Some conv) [] 1) acc cs
          else Inl ValueError
      | In_spec name conv spec depth \<Rightarrow>
          if c = CHR ''{'' then fmt_scan render params (In_spec name conv (c # spec) (depth + 1)) acc cs
          else if c = CHR ''}'' then
            (if depth = 1 then
               (case replace_field render params (rev name) conv (rev spec) of
                  Inl e \<Rightarrow> Inl e
                | Inr text \<Rightarrow> fmt_scan render params Lit (rev text @ acc) cs)
             else fmt_scan render params (In_spec name conv (c # spec) (depth - 1)) acc cs)
          else fmt_scan render params (In_spec name conv (c # spec) depth) acc cs)"

definition py_format :: "renderer \<Rightarrow> string \<Rightarrow> pydict \<Rightarrow> error + string" where
  "py_format render template params = fmt_scan render params Lit [] template"

text \<open>\<open>_format\<close>: the \<open>except Exception\<close> gives the value back as it was.\<close>

definition format :: "renderer \<Rightarrow> pyval \<Rightarrow> pydict \<Rightarrow> pyval" where
  "format render v params =
     (case v of
        VStr s \<Rightarrow> (case py_format render s params of Inr r \<Rightarrow> VStr r | Inl e \<Rightarrow> v)
      | _ \<Rightarrow> v)"

text \<open>A renderer that knows no accessor, conversion or specification.\<close>

definition no_render :: renderer where
  "no_render accessors conv spec v params = Inl ValueError"




subsection \<open>The device and the rest of the outside world\<close>

text \<open>
  What a run does to the outside is recorded in order: the \<open>adb\<close> commands started
  (with their full argument list), the pauses (in milliseconds), the lines written to
  the log (without their time stamp), the calls of \<open>ensure_autoglm_running\<close> and the
  prompts handed to \<open>run_prompt_via_process\<close>. The outside answers through the
  parameter \<open>env\<close>, each answer depending on what has happened so far: how an \<open>adb\<close>
  command ends, whether the engine could be started, what a prompt gives (both may
  raise), and the longest pause, in milliseconds, that the clock of the host still
  accepts. Writing the log is taken to succeed. Texts that the source writes in
  Chinese are replaced by English ones in angle brackets.
\<close>

datatype effect =
    Adb "string list"
  | Pause int
  | Log string
  | Ensure_autoglm
  | Prompt pyval int

datatype adb_outcome = Exited int string | Adb_not_found | Adb_timeout | Adb_failed

record step_env =
  adb_reply :: "effect list \<Rightarrow> string list \<Rightarrow> adb_outcome"
  ensure_reply :: "effect list \<Rightarrow> error option"
  prompt_reply :: "effect list \<Rightarrow> pyval \<Rightarrow> int \<Rightarrow> error + (bool \<times> string)"
  render :: renderer
  sleep_max :: "effect list \<Rightarrow> int"

type_synonym world = "effect list"

definition log_line :: "string \<Rightarrow> world \<Rightarrow> world" where
  "log_line text w = w @ [Log text]"

subsection \<open>adb.py\<close>

definition adb_base_args :: "string option \<Rightarrow> string list" where
  "adb_base_args device_id =
     (case device_id of
        None \<Rightarrow> [''adb'']
      | Some d \<Rightarrow> if d = [] then [''adb''] else [''adb'', ''-s'', d])"

fun str_arg :: "pyval \<Rightarrow> string option" where
  "str_arg (VStr s) = (if CHR 0x00 \<in> set s then None else Some s)"
| "str_arg v = None"

text \<open>
  \<open>_run_adb\<close>: an argument that is not a string, or holds a null character, makes
  \<open>subprocess.run\<close> raise before anything is started, which is caught like every other
  failure.
\<close>

definition run_adb ::
  "step_env \<Rightarrow> pyval list \<Rightarrow> string option \<Rightarrow> world \<Rightarrow> (int \<times> string) \<times> world" where
  "run_adb env args device_id w =
     (if list_all (\<lambda>a. str_arg a \<noteq> None) (map VStr (adb_base_args device_id) @ args)
      then
        let argv = adb_base_args device_id @ map py_str args in
        (case adb_reply env w argv of
           Exited rc out \<Rightarrow> ((rc, py_strip out), w @ [Adb argv])
         | Adb_not_found \<Rightarrow> ((127, ''<adb not found>''), w @ [Adb argv])
         | Adb_timeout \<Rightarrow> ((124, ''<adb timed out>''), w @ [Adb argv])
         | Adb_failed \<Rightarrow> ((1, ''<adb failed>''), w @ [Adb argv]))
      else ((1, ''<adb failed>''), w))"

definition shell :: "step_env \<Rightarrow> pyval \<Rightarrow> string option \<Rightarrow> world \<Rightarrow> (bool \<times> string) \<times> world" where
  "shell env cmd device_id w =
     (case run_adb env [VStr ''shell'', cmd] device_id w of
        ((rc, out), w') \<Rightarrow> ((rc = 0, out), w'))"

definition shell_argv ::
  "step_env \<Rightarrow> pyval list \<Rightarrow> string option \<Rightarrow> world \<Rightarrow> (bool \<times> string) \<times> world" where
  "shell_argv env argv device_id w =
     (case run_adb env (VStr ''shell'' # argv) device_id w of
        ((rc, out), w') \<Rightarrow> ((rc = 0, out), w'))"

text \<open>\<open>shlex.quote\<close>\<close>

definition shlex_safe :: "char \<Rightarrow> bool" where
  "shlex_safe c = (let n = of_char c :: nat in
     (48 \<le> n \<and> n \<le> 57) \<or> (65 \<le> n \<and> n \<le> 90) \<or> (97 \<le> n \<and> n \<le> 122)
     \<or> c \<in> set ''_@%+=:,./-'')"

definition shlex_quote :: "string \<Rightarrow> string" where
  "shlex_quote s =
     (if s = [] then [CHR 0x27, CHR 0x27]
      else if list_all shlex_safe s then s
      else [CHR 0x27]
           @ concat (map (\<lambda>c. if c = CHR 0x27
                               then [CHR 0x27, CHR 0x22, CHR 0x27, CHR 0x22, CHR 0x27]
                               else [c]) s)
           @ [CHR 0x27])"

definition input_text ::
  "step_env \<Rightarrow> pyval \<Rightarrow> string option \<Rightarrow> world \<Rightarrow> (error + bool \<times> string) \<times> world" where
  "input_text env text device_id w =
     (case text of
        VStr s \<Rightarrow>
          let sanitized = map (\<lambda>c. if c = CHR 0x0D \<or> c = CHR 0x0A then CHR '' '' else c) s;
              safe = shlex_quote sanitized
          in (case shell env (VStr (''input text '' @ safe)) device_id w of
                (r, w') \<Rightarrow> (Inr r, w'))
      | _ \<Rightarrow> (Inl AttributeError, w))"

definition tap ::
  "step_env \<Rightarrow> int \<Rightarrow> int \<Rightarrow> string option \<Rightarrow> world \<Rightarrow> (bool \<times> string) \<times> world" where
  "tap env x y device_id w =
     shell_argv env [VStr ''input'', VStr ''tap'', VStr (show_int x), VStr (show_int y)] device_id w"

definition swipe ::
  "step_env \<Rightarrow> int \<Rightarrow> int \<Rightarrow> int \<Rightarrow> int \<Rightarrow> int \<Rightarrow> string option \<Rightarrow> world
     \<Rightarrow> (bool \<times> string) \<times> world" where
  "swipe env x1 y1 x2 y2 duration_ms device_id w =
     shell_argv env [VStr ''input'', VStr ''swipe'', VStr (show_int x1), VStr (show_int y1),
                     VStr (show_int x2), VStr (show_int y2), VStr (show_int duration_ms)]
       device_id w"

text \<open>
  \<open>re.fullmatch(r"\d+", key)\<close> and \<open>re.fullmatch(r"KEYCODE_[A-Z0-9_]+", key)\<close>
\<close>

definition fullmatch_digits :: "string \<Rightarrow> bool" where
  "fullmatch_digits key = (key \<noteq> [] \<and> list_all is_digit key)"

definition keycode_char :: "char \<Rightarrow> bool" where
  "keycode_char c = (let n = of_char c :: nat in
     (65 \<le> n \<and> n \<le> 90) \<or> (48 \<le> n \<and> n \<le> 57) \<or> c = CHR ''_'')"

definition fullmatch_keycode :: "string \<Rightarrow> bool" where
  "fullmatch_keycode key =
     (take 8 key = ''KEYCODE_'' \<and> drop 8 key \<noteq> [] \<and> list_all keycode_char (drop 8 key))"

definition keyevent ::
  "step_env \<Rightarrow> pyval \<Rightarrow> string option \<Rightarrow> world \<Rightarrow> (bool \<times> string) \<times> world" where
  "keyevent env key0 device_id w =
     (let key = py_strip (py_str (py_or key0 (VStr []))) in
      if key = [] then ((False, ''invalid keyevent''), w)
      else if \<not> (fullmatch_digits key \<or> fullmatch_keycode key)
      then ((False, ''invalid keyevent''), w)
      else shell_argv env [VStr ''input'', VStr ''keyevent'', VStr key] device_id w)"

text \<open>\<open>ch.isalnum()\<close> for a code point below 256.\<close>

definition is_alnum :: "char \<Rightarrow> bool" where
  "is_alnum c = (let n = of_char c :: nat in
     (48 \<le> n \<and> n \<le> 57) \<or> (65 \<le> n \<and> n \<le> 90) \<or> (97 \<le> n \<and> n \<le> 122)
     \<or> n = 170 \<or> n = 178 \<or> n = 179 \<or> n = 181 \<or> n = 185 \<or> n = 186
     \<or> (188 \<le> n \<and> n \<le> 190) \<or> (192 \<le> n \<and> n \<le> 214) \<or> (216 \<le> n \<and> n \<le> 246)
     \<or> (248 \<le> n \<and> n \<le> 255))"

text \<open>The inner \<open>_validate\<close> of \<open>start_app\<close>: \<open>None\<close> when the name passes.\<close>

fun validate_name :: "pyval \<Rightarrow> error option" where
  "validate_name (VStr s) =
     (if s = [] \<or> \<not> list_all (\<lambda>ch. is_alnum ch \<or> ch \<in> set ''._$'') s
      then Some ValueError else None)"
| "validate_name v = (if truthy v then Some TypeError else Some ValueError)"

definition launcher_args :: "pyval \<Rightarrow> pyval list" where
  "launcher_args package =
     [VStr ''monkey'', VStr ''-p'', package, VStr ''-c'',
      VStr ''android.intent.category.LAUNCHER'', VStr ''1'']"

definition start_app ::
  "step_env \<Rightarrow> pyval \<Rightarrow> pyval \<Rightarrow> pyval \<Rightarrow> string option \<Rightarrow> world
     \<Rightarrow> (error + bool \<times> string) \<times> world" where
  "start_app env package activity action device_id w =
     (case validate_name package of
        Some e \<Rightarrow> (Inl e, w)
      | None \<Rightarrow>
          (case (if truthy activity
                 then (case activity of
                         VStr a \<Rightarrow>
                           (if CHR ''/'' \<in> set a
                            then (case py_split1 (CHR ''/'') a of
                                    (p1, p2) \<Rightarrow>
                                      (case validate_name (VStr p1) of
                                         Some e \<Rightarrow> Some e
                                       | None \<Rightarrow> validate_name (VStr p2)))
                            else validate_name (VStr a))
                       | _ \<Rightarrow> Some AttributeError)
                 else None) of
             Some e \<Rightarrow> (Inl e, w)
           | None \<Rightarrow>
               (case (if action = VStr ''monkey'' \<or> (action = VStr ''auto'' \<and> \<not> truthy activity)
                      then shell_argv env (launcher_args package) device_id w
                      else if truthy activity
                      then shell_argv env
                             [VStr ''am'', VStr ''start'', VStr ''-n'',
                              VStr (py_str package @ ''/'' @ py_str activity)] device_id w
                      else shell_argv env (launcher_args package) device_id w) of
                  (r, w') \<Rightarrow> (Inr r, w'))))"

text \<open>
  \<open>pause_ms(ms)\<close> is \<open>time.sleep(max(ms, 0) / 1000)\<close>. \<open>time.sleep\<close> turns the seconds into
  a signed 64-bit count of nanoseconds and raises \<open>OverflowError\<close> when they do not
  fit, which is from 9223372036855 milliseconds on (the division itself raises
  \<open>OverflowError\<close> for an integer beyond the range of a double). A shorter pause whose
  end the clock of the host cannot express is refused with \<open>OSError\<close>. Otherwise the
  pause takes place.
\<close>

definition sleep_ns_max_ms :: int where
  "sleep_ns_max_ms = 9223372036854"

definition pause_ms :: "step_env \<Rightarrow> int \<Rightarrow> world \<Rightarrow> error + world" where
  "pause_ms env ms w =
     (let pause = max ms 0
      in if sleep_ns_max_ms < pause then Inl OverflowError
         else if sleep_max env w < pause then Inl OSError
         else Inr (w @ [Pause pause]))"

subsection \<open>tasks\_runner.py\<close>

text \<open>
  \<open>run_prompt_via_process\<close> talks to the supervised engine and reads its log until a
  time limit; its result is the environment's answer.
\<close>

definition run_prompt_via_process ::
  "step_env \<Rightarrow> pyval \<Rightarrow> int \<Rightarrow> world \<Rightarrow> (error + bool \<times> string) \<times> world" where
  "run_prompt_via_process env prompt timeout_s w =
     (prompt_reply env w prompt timeout_s, w @ [Prompt prompt timeout_s])"

definition step_device_id :: "renderer \<Rightarrow> pydict \<Rightarrow> pydict \<Rightarrow> string option \<Rightarrow> string option" where
  "step_device_id rd step params default_device_id =
     (case dict_get step ''device_id'' VNone of
        VNone \<Rightarrow> default_device_id
      | raw \<Rightarrow>
          let v = format rd raw params;
              device_id = py_strip (py_str (py_or v (VStr [])))
          in if device_id = [] then default_device_id else Some device_id)"

text \<open>\<open>s.splitlines()\<close>\<close>

definition is_linebreak :: "char \<Rightarrow> bool" where
  "is_linebreak c = (let n = of_char c :: nat in
     (10 \<le> n \<and> n \<le> 13) \<or> (28 \<le> n \<and> n \<le> 30) \<or> n = 133)"

fun split_lines :: "string \<Rightarrow> string \<Rightarrow> string list" where
  "split_lines cur [] = (if cur = [] then [] else [rev cur])"
| "split_lines cur [c] = (if is_linebreak c then [rev cur] else [rev (c # cur)])"
| "split_lines cur (c # d # cs) =
     (if c = CHR 0x0D \<and> d = CHR 0x0A then rev cur # split_lines [] cs
      else if is_linebreak c then rev cur # split_lines [] (d # cs)
      else split_lines (c # cur) (d # cs))"

definition py_splitlines :: "string \<Rightarrow> string list" where
  "py_splitlines s = split_lines [] s"

text \<open>Binding a result that may be an exception.\<close>

definition bind_err ::
  "(error + 'a) \<Rightarrow> world \<Rightarrow> ('a \<Rightarrow> (error + 'b) \<times> world) \<Rightarrow> (error + 'b) \<times> world" where
  "bind_err r w f = (case r of Inl e \<Rightarrow> (Inl e, w) | Inr x \<Rightarrow> f x)"

text \<open>\<open>int(_format(step.get(key, default), params) or default)\<close>\<close>

definition int_field :: "renderer \<Rightarrow> pydict \<Rightarrow> pydict \<Rightarrow> string \<Rightarrow> int \<Rightarrow> error + int" where
  "int_field rd step params key dflt =
     int_of (py_or (format rd (dict_get step key (VInt dflt)) params) (VInt dflt))"

definition run_step ::
  "step_env \<Rightarrow> pydict \<Rightarrow> pydict \<Rightarrow> string option \<Rightarrow> world \<Rightarrow> (error + bool \<times> pyval) \<times> world" where
  "run_step env step params default_device_id w =
     (let rd = render env;
          stype = dict_get step ''type'' (VStr []);
          device_id = step_device_id rd step params default_device_id
      in
      if stype = VStr ''note'' then
        let msg = format rd (dict_get step ''text'' (VStr [])) params in
        (Inr (True, msg), log_line (''[note] '' @ py_str msg) w)
      else if stype = VStr ''sleep'' then
        bind_err (int_field rd step params ''ms'' 500) w (\<lambda>ms.
          (case pause_ms env ms w of
             Inl e \<Rightarrow> (Inl e, w)
           | Inr w' \<Rightarrow> (Inr (True, VStr (''sleep '' @ show_int ms @ ''ms'')), w')))
      else if stype = VStr ''adb_shell'' then
        let cmd = format rd (dict_get step ''command'' (VStr [])) params in
        (case shell env cmd device_id w of
           ((ok, out), w') \<Rightarrow>
             (Inr (ok, VStr out),
              log_line (''[adb shell] '' @ py_str cmd @ '' -> '' @ out) w'))
      else if stype = VStr ''adb_input'' then
        let text = format rd (dict_get step ''text'' (VStr [])) params in
        (case input_text env text device_id w of
           (Inl e, w') \<Rightarrow> (Inl e, w')
         | (Inr (ok, out), w') \<Rightarrow>
             (Inr (ok, VStr out),
              log_line (''[adb input] '' @ py_str text @ '' -> '' @ out) w'))
      else if stype = VStr ''adb_tap'' then
        bind_err (int_field rd step params ''x'' 0) w (\<lambda>x.
        bind_err (int_field rd step params ''y'' 0) w (\<lambda>y.
          (case tap env x y device_id w of
             ((ok, out), w') \<Rightarrow>
               (Inr (ok, VStr out),
                log_line (''[adb tap] ('' @ show_int x @ '','' @ show_int y @ '') -> '' @ out) w'))))
      else if stype = VStr ''adb_swipe'' then
        bind_err (int_field rd step params ''x1'' 0) w (\<lambda>x1.
        bind_err (int_field rd step params ''y1'' 0) w (\<lambda>y1.
        bind_err (int_field rd step params ''x2'' 0) w (\<lambda>x2.
        bind_err (int_field rd step params ''y2'' 0) w (\<lambda>y2.
        bind_err (int_field rd step params ''duration_ms'' 300) w (\<lambda>duration_ms.
          (case swipe env x1 y1 x2 y2 duration_ms device_id w of
             ((ok, out), w') \<Rightarrow>
               (Inr (ok, VStr out),
                log_line (''[adb swipe] ('' @ show_int x1 @ '','' @ show_int y1 @ '')->(''
                          @ show_int x2 @ '','' @ show_int y2 @ '') '' @ show_int duration_ms
                          @ ''ms -> '' @ out) w')))))))
      else if stype = VStr ''adb_keyevent'' then
        let key = format rd (dict_get step ''key'' (VStr [])) params in
        (case keyevent env key device_id w of
           ((ok, out), w') \<Rightarrow>
             (Inr (ok, VStr out),
              log_line (''[adb keyevent] '' @ py_str key @ '' -> '' @ out) w'))
      else if stype = VStr ''app_launch'' then
        let package = format rd (dict_get step ''package'' (VStr [])) params;
            activity = py_or (format rd (dict_get step ''activity'' (VStr [])) params) VNone;
            action = format rd (dict_get step ''action'' (VStr ''auto'')) params
        in (case start_app env package activity action device_id w of
              (Inl e, w') \<Rightarrow> (Inl e, w')
            | (Inr (ok, out), w') \<Rightarrow>
                (Inr (ok, VStr out),
                 log_line (''[app launch] '' @ py_str package @ '' ''
                           @ py_str (py_or activity (VStr [])) @ '' -> '' @ out) w'))
      else if stype = VStr ''autoglm_prompt'' then
        let text = format rd (dict_get step ''text'' (VStr [])) params in
        bind_err (int_field rd step params ''timeout_s'' 120) w (\<lambda>timeout_s.
          (case run_prompt_via_process env text timeout_s w of
             (Inl e, w') \<Rightarrow> (Inl e, w')
           | (Inr (ok, output), w') \<Rightarrow>
               (Inr (ok, VStr output),
                foldl (\<lambda>wl ln. log_line (''[autoglm prompt output] '' @ ln) wl)
                      (log_line (''[autoglm prompt] '' @ py_str text) w')
                      (py_splitlines output))))
      else (Inr (False, VStr (''<unknown step type: '' @ py_str stype @ ''>'')), w))"







text \<open>
  A device that accepts every command, on a host whose clock accepts pauses up to
  9000000000000 milliseconds, and the three steps of an example: a note, a key event
  with a shell command smuggled into its key, and a second note.
\<close>

definition quiet_env :: step_env where
  "quiet_env = \<lparr>adb_reply = (\<lambda>w argv. Exited 0 []), ensure_reply = (\<lambda>w. None),
                prompt_reply = (\<lambda>w p t. Inr (True, [])), render = no_render,
                sleep_max = (\<lambda>w. 9000000000000)\<rparr>"




section \<open>Properties of the cron scheduler\<close>

lemma length_six:
  assumes "length xs = 6"
  obtains a b c d e f where "xs = [a, b, c, d, e, f]"
  using assms by (auto simp: eval_nat_numeral length_Suc_conv)

lemma valid_cron_sets:
  assumes "is_valid_cron e"
  shows "\<exists>fs. cron_sets e = Some fs \<and> (\<forall>ts. matches e ts = fields_match (add_sunday fs) ts)"
proof -
  from assms have len: "length (py_split (py_strip e)) = 6"
    by (auto simp: is_valid_cron_def Let_def split: if_splits)
  then obtain a b c d f g where parts: "py_split (py_strip e) = [a, b, c, d, f, g]"
    by (rule length_six)
  from assms parts have ne:
    "parse_field (py_strip a) 0 59 \<noteq> {}" "parse_field (py_strip b) 0 59 \<noteq> {}"
    "parse_field (py_strip c) 0 23 \<noteq> {}" "parse_field (py_strip d) 1 31 \<noteq> {}"
    "parse_field (py_strip f) 1 12 \<noteq> {}" "parse_field (py_strip g) 0 7 \<noteq> {}"
    by (simp_all add: is_valid_cron_def cron_ranges_def split: if_splits)
  from parts ne show ?thesis
    by (simp add: cron_sets_def matches_def cron_ranges_def add_sunday_def Let_def)
qed

lemma invalid_no_match:
  assumes "\<not> is_valid_cron e"
  shows "\<not> matches e ts"
proof (cases "length (py_split (py_strip e)) = 6")
  case False
  then show ?thesis by (simp add: matches_def)
next
  case True
  then obtain a b c d f g where parts: "py_split (py_strip e) = [a, b, c, d, f, g]"
    by (rule length_six)
  from assms parts show ?thesis
    by (auto simp: is_valid_cron_def matches_def cron_ranges_def Let_def split: if_splits)
qed

lemma dt_valid_between:
  "dt_valid a \<Longrightarrow> dt_valid b \<Longrightarrow> a \<le> x \<Longrightarrow> x \<le> b \<Longrightarrow> dt_valid x"
  by (simp add: dt_valid_def local_seconds_def)


subsection \<open>The time stamp\<close>

lemma bit_length_bounds:
  "0 < n \<Longrightarrow> 2 ^ bit_length n \<le> 2 * n \<and> n < 2 ^ bit_length n"
proof (induction n rule: bit_length.induct)
  case (1 n)
  show ?case
  proof (cases "n div 2 \<le> 0")
    case True
    with "1.prems" have "n = 1" by simp
    then show ?thesis by (simp add: bit_length.simps[of 1] bit_length.simps[of 0])
  next
    case False
    with "1.IH" "1.prems" have ih: "2 ^ bit_length (n div 2) \<le> 2 * (n div 2)"
        "n div 2 < 2 ^ bit_length (n div 2)" by simp_all
    have bl: "bit_length n = Suc (bit_length (n div 2))"
      using "1.prems" by (subst bit_length.simps) simp
    have "2 * (n div 2) \<le> n" "n \<le> 2 * (n div 2) + 1" by simp_all
    with ih show ?thesis unfolding bl by simp
  qed
qed

lemma floor_log2_le:
  assumes "0 < p" and "0 < d"
  shows "pow2_le (floor_log2 p d) p d"
proof (cases "pow2_le (int (bit_length p) - int (bit_length d)) p d")
  case True
  then show ?thesis by (simp add: floor_log2_def)
next
  case False
  let ?A = "bit_length p" and ?B = "bit_length d"
  have e: "floor_log2 p d = int ?A - int ?B - 1" using False by (simp add: floor_log2_def)
  from bit_length_bounds[OF assms(1)] have pa: "(2::int) ^ ?A \<le> 2 * p" by simp
  from bit_length_bounds[OF assms(2)] have db: "d < 2 ^ ?B" by simp
  show ?thesis
  proof (cases "?B < ?A")
    case True
    then have n: "nat (int ?A - int ?B - 1) = ?A - ?B - 1" by simp
    have "(2::int) ^ (?A - ?B - 1) * d \<le> 2 ^ (?A - ?B - 1) * 2 ^ ?B"
      using db by (intro mult_left_mono) simp_all
    also have "\<dots> = 2 ^ (?A - 1)" using True by (simp add: power_add[symmetric])
    finally have 1: "(2::int) ^ (?A - ?B - 1) * d \<le> 2 ^ (?A - 1)" .
    have "(2::int) * 2 ^ (?A - 1) = 2 ^ ?A" using True by (cases ?A) simp_all
    with pa have "(2::int) ^ (?A - 1) \<le> p" by simp
    with 1 have "(2::int) ^ (?A - ?B - 1) * d \<le> p" by simp
    with True show ?thesis unfolding e pow2_le_def n by simp
  next
    case False
    then have n: "nat (- (int ?A - int ?B - 1)) = ?B - ?A + 1" by simp
    have "(2::int) ^ ?B = 2 ^ ?A * 2 ^ (?B - ?A)" using False by (simp add: power_add[symmetric])
    also have "\<dots> \<le> (2 * p) * 2 ^ (?B - ?A)" using pa by (intro mult_right_mono) simp_all
    also have "\<dots> = p * 2 ^ (?B - ?A + 1)" by simp
    finally have "d \<le> p * 2 ^ (?B - ?A + 1)" using db by simp
    with False show ?thesis unfolding e pow2_le_def n by simp
  qed
qed

lemma floor_log2_less:
  assumes "0 < p" and "0 < d" and "p < 2 ^ n * d"
  shows "floor_log2 p d < int n"
proof (rule ccontr)
  assume "\<not> floor_log2 p d < int n"
  then have ge: "int n \<le> floor_log2 p d" by simp
  then have "0 \<le> floor_log2 p d" by simp
  with floor_log2_le[OF assms(1,2)] have "2 ^ nat (floor_log2 p d) * d \<le> p"
    by (simp add: pow2_le_def)
  moreover have "(2::int) ^ n \<le> 2 ^ nat (floor_log2 p d)"
    using ge by (intro power_increasing) simp_all
  then have "(2::int) ^ n * d \<le> 2 ^ nat (floor_log2 p d) * d"
    using assms(2) by (intro mult_right_mono) simp_all
  ultimately show False using assms(3) by simp
qed

lemma round_half_even_exact:
  assumes "0 < b" shows "round_half_even (x * b) b = x"
  using assms by (simp add: round_half_even_def Let_def)

lemma double_trunc_whole:
  assumes "0 < s" and "s < 2 ^ 53" and "0 < d"
  shows "double_trunc (s * d) d = s"
proof -
  have p: "0 < s * d" using assms by simp
  have "s * d < 2 ^ 53 * d" using assms by simp
  from floor_log2_less[OF p assms(3) this] have k: "0 \<le> 52 - floor_log2 (s * d) d" by simp
  let ?K = "(2::int) ^ nat (52 - floor_log2 (s * d) d)"
  have K: "0 < ?K" by simp
  have "s * d * ?K = (s * ?K) * d" by (simp add: mult_ac)
  then have "round_half_even (s * d * ?K) d = s * ?K"
    using round_half_even_exact[OF assms(3), of "s * ?K"] by (simp only:)
  then show ?thesis using k K by (simp add: double_trunc_def Let_def)
qed

lemma round_half_even_bounds:
  assumes "0 < b"
  shows "a div b \<le> round_half_even a b" and "round_half_even a b \<le> a div b + 1"
    and "2 * (a mod b) < b \<Longrightarrow> round_half_even a b = a div b"
  by (simp_all add: round_half_even_def Let_def)

lemma div_between:
  fixes x :: int
  assumes "0 < k" and "s * k \<le> x" and "x < (s + 1) * k"
  shows "x div k = s"
proof -
  define y where "y = x - s * k"
  have y: "0 \<le> y" "y < k" using assms by (simp_all add: y_def algebra_simps)
  have "x = s * k + y" by (simp add: y_def)
  then have "x div k = s + y div k" using assms(1) by simp
  also have "y div k = 0" using y by (simp add: div_pos_pos_trivial)
  finally show ?thesis by simp
qed

lemma double_trunc_frac:
  assumes "0 \<le> s" and "s < 2 ^ 34" and "0 \<le> u" and "u < 1000000" and "0 < s * 1000000 + u"
  shows "double_trunc (s * 1000000 + u) 1000000 = s"
proof -
  let ?p = "s * 1000000 + u"
  have "?p < (s + 1) * 1000000" using assms by (simp add: algebra_simps)
  also have "\<dots> \<le> 2 ^ 34 * 1000000" using assms(2) by simp
  finally have "?p < 2 ^ 34 * 1000000" .
  from floor_log2_less[OF assms(5) _ this] have e: "floor_log2 ?p 1000000 < 34" by simp
  define k where "k = nat (52 - floor_log2 ?p 1000000)"
  have k19: "19 \<le> k" using e by (simp add: k_def)
  define K :: int where "K = 2 ^ k"
  have "(2::int) ^ 19 \<le> 2 ^ k" using k19 by (intro power_increasing) simp_all
  then have K: "524288 \<le> K" by (simp add: K_def)
  define X where "X = s * K"
  define Y where "Y = u * K"
  define a where "a = ?p * K"
  have a: "a = X * 1000000 + Y" by (simp add: a_def X_def Y_def algebra_simps)
  have Y0: "0 \<le> Y" using assms(3) K by (simp add: Y_def)
  have "u * K \<le> 999999 * K" using assms(4) K by (intro mult_right_mono) simp_all
  then have Y1: "Y \<le> 1000000 * K - K" by (simp add: Y_def)
  define q where "q = a div 1000000"
  define r where "r = a mod 1000000"
  have qr: "a = q * 1000000 + r" "0 \<le> r" "r < 1000000" by (simp_all add: q_def r_def)
  have lo: "X \<le> q" using qr a Y0 by linarith
  have hi: "q \<le> X + K - 1" using qr a Y1 K by linarith
  have rb: "q = X + K - 1 \<Longrightarrow> 2 * r < 1000000" using qr a Y1 K by linarith
  have rl: "X \<le> round_half_even a 1000000"
    using round_half_even_bounds(1)[of 1000000 a] lo by (simp add: q_def)
  have ru: "round_half_even a 1000000 \<le> X + K - 1"
  proof (cases "q = X + K - 1")
    case True
    from rb[OF True] have "round_half_even a 1000000 = q"
      using round_half_even_bounds(3)[of 1000000 a] by (simp add: q_def r_def)
    with True show ?thesis by simp
  next
    case False
    with hi have "q + 1 \<le> X + K - 1" by simp
    with round_half_even_bounds(2)[of 1000000 a] show ?thesis by (simp add: q_def)
  qed
  have "round_half_even a 1000000 div K = s"
  proof (rule div_between)
    show "0 < K" using K by simp
    show "s * K \<le> round_half_even a 1000000" using rl by (simp add: X_def)
    show "round_half_even a 1000000 < (s + 1) * K" using ru by (simp add: X_def algebra_simps)
  qed
  moreover have "0 \<le> 52 - floor_log2 ?p 1000000" using e by simp
  ultimately show ?thesis
    by (simp add: double_trunc_def Let_def a_def K_def k_def)
qed


lemma timestamp_whole:
  assumes "dt_micro d = 0" and "\<bar>dt_whole d\<bar> < 2 ^ 53"
  shows "timestamp_int d = dt_whole d"
proof -
  let ?s = "dt_whole d"
  consider "?s = 0" | "0 < ?s" | "?s < 0" by linarith
  then show ?thesis
  proof cases
    case 1
    with assms(1) show ?thesis by (simp add: timestamp_int_def int_of_quotient_def)
  next
    case 2
    with assms(2) have "double_trunc (?s * 1000000) 1000000 = ?s"
      by (intro double_trunc_whole) simp_all
    with 2 assms(1) show ?thesis by (simp add: timestamp_int_def int_of_quotient_def)
  next
    case 3
    with assms(2) have "double_trunc ((- ?s) * 1000000) 1000000 = - ?s"
      by (intro double_trunc_whole) simp_all
    with 3 assms(1) show ?thesis by (simp add: timestamp_int_def int_of_quotient_def)
  qed
qed

lemma timestamp_frac:
  assumes "0 \<le> dt_whole d" and "dt_whole d < 2 ^ 34"
    and "0 \<le> dt_micro d" and "dt_micro d < 1000000"
  shows "timestamp_int d = dt_whole d"
proof (cases "dt_whole d * 1000000 + dt_micro d = 0")
  case True
  with assms have "dt_whole d = 0" by linarith
  with True show ?thesis by (simp add: timestamp_int_def int_of_quotient_def)
next
  case False
  with assms have pos: "0 < dt_whole d * 1000000 + dt_micro d" by linarith
  from double_trunc_frac[OF assms pos] pos show ?thesis
    by (simp add: timestamp_int_def int_of_quotient_def)
qed

lemma dt_valid_magnitude: "dt_valid s \<Longrightarrow> \<bar>s\<bar> < 2 ^ 53"
  by (simp add: dt_valid_def local_seconds_def tz_offset_def abs_less_iff)

subsection \<open>The forward search\<close>

lemma shift_all:
  assumes "R (offset::nat)" and "\<forall>j<k. R (Suc offset + j)"
  shows "\<forall>j<Suc k. R (offset + j)"
proof (intro allI impI)
  fix j assume j: "j < Suc k"
  show "R (offset + j)"
  proof (cases j)
    case 0
    with assms(1) show ?thesis by simp
  next
    case (Suc j')
    with j assms(2) show ?thesis by simp
  qed
qed

lemma scan_cases:
  "(\<exists>k<left. scan fs start offset left
                = Inr (timestamp_int (start\<lparr>dt_whole := dt_whole start + int (offset + k)\<rparr>))
        \<and> dt_valid (dt_whole start + int (offset + k))
        \<and> fields_match fs (dt_whole start + int (offset + k))
        \<and> (\<forall>j<k. dt_valid (dt_whole start + int (offset + j))
                  \<and> \<not> fields_match fs (dt_whole start + int (offset + j))))
   \<or> (scan fs start offset left = Inr 0
        \<and> (\<forall>k<left. dt_valid (dt_whole start + int (offset + k))
                  \<and> \<not> fields_match fs (dt_whole start + int (offset + k))))
   \<or> (\<exists>k<left. scan fs start offset left = Inl OverflowError
        \<and> \<not> dt_valid (dt_whole start + int (offset + k))
        \<and> (\<forall>j<k. dt_valid (dt_whole start + int (offset + j))
                  \<and> \<not> fields_match fs (dt_whole start + int (offset + j))))"
proof (induction left arbitrary: offset)
  case 0
  then show ?case by simp
next
  case (Suc left)
  let ?s = "\<lambda>i. dt_whole start + int i"
  let ?R = "\<lambda>i. dt_valid (?s i) \<and> \<not> fields_match fs (?s i)"
  show ?case
  proof (cases "dt_valid (?s offset)")
    case False
    then have "scan fs start offset (Suc left) = Inl OverflowError"
      by (simp add: dt_add_seconds_def)
    with False show ?thesis by (intro disjI2 exI[of _ 0]) simp
  next
    case v: True
    show ?thesis
    proof (cases "fields_match fs (?s offset)")
      case True
      with v have "scan fs start offset (Suc left)
            = Inr (timestamp_int (start\<lparr>dt_whole := dt_whole start + int (offset + 0)\<rparr>))"
        by (simp add: dt_add_seconds_def)
      with v True show ?thesis by (intro disjI1 exI[of _ 0]) simp
    next
      case False
      with v have step: "scan fs start offset (Suc left) = scan fs start (Suc offset) left"
        by (simp add: dt_add_seconds_def)
      from v False have r0: "?R offset" by simp
      from Suc.IH[of "Suc offset"] consider
        (found) k where "k < left"
          "scan fs start (Suc offset) left
             = Inr (timestamp_int (start\<lparr>dt_whole := dt_whole start + int (Suc offset + k)\<rparr>))"
          "dt_valid (?s (Suc offset + k))" "fields_match fs (?s (Suc offset + k))"
          "\<forall>j<k. ?R (Suc offset + j)"
        | (none) "scan fs start (Suc offset) left = Inr 0" "\<forall>k<left. ?R (Suc offset + k)"
        | (overflow) k where "k < left" "scan fs start (Suc offset) left = Inl OverflowError"
          "\<not> dt_valid (?s (Suc offset + k))" "\<forall>j<k. ?R (Suc offset + j)"
        by blast
      then show ?thesis
      proof cases
        case found
        from shift_all[of ?R, OF r0 found(5)] have "\<forall>j<Suc k. ?R (offset + j)" .
        with found step show ?thesis
          by (intro disjI1 exI[of _ "Suc k"]) simp
      next
        case none
        from shift_all[of ?R, OF r0 none(2)] have "\<forall>j<Suc left. ?R (offset + j)" .
        with none step show ?thesis by simp
      next
        case overflow
        from shift_all[of ?R, OF r0 overflow(4)] have "\<forall>j<Suc k. ?R (offset + j)" .
        with overflow step show ?thesis
          by (intro disjI2 exI[of _ "Suc k"]) simp
      qed
    qed
  qed
qed

lemma scan_no_match:
  assumes "\<forall>k<left. dt_valid (dt_whole start + int (offset + k))"
    and "\<forall>k<left. \<not> fields_match fs (dt_whole start + int (offset + k))"
  shows "scan fs start offset left = Inr 0"
  using scan_cases[of left fs start offset] assms by blast

lemma scan_first:
  assumes "k < left"
    and "\<forall>j\<le>k. dt_valid (dt_whole start + int (offset + j))"
    and "fields_match fs (dt_whole start + int (offset + k))"
    and "\<forall>j<k. \<not> fields_match fs (dt_whole start + int (offset + j))"
  shows "scan fs start offset left
           = Inr (timestamp_int (start\<lparr>dt_whole := dt_whole start + int (offset + k)\<rparr>))"
proof -
  let ?s = "\<lambda>i. dt_whole start + int (offset + i)"
  from scan_cases[of left fs start offset] consider
    (found) i where "i < left"
      "scan fs start offset left = Inr (timestamp_int (start\<lparr>dt_whole := ?s i\<rparr>))"
      "fields_match fs (?s i)" "\<forall>j<i. \<not> fields_match fs (?s j)"
    | (none) "\<forall>i<left. \<not> fields_match fs (?s i)"
    | (overflow) i where "i < left" "\<not> dt_valid (?s i)" "\<forall>j<i. \<not> fields_match fs (?s j)"
    by blast
  then show ?thesis
  proof cases
    case found
    have "\<not> i < k" using found(3) assms(4) by blast
    moreover have "\<not> k < i" using found(4) assms(3) by blast
    ultimately have "i = k" by simp
    with found(2) show ?thesis by simp
  next
    case none
    with assms(1,3) show ?thesis by blast
  next
    case overflow
    have "\<not> i \<le> k" using overflow(2) assms(2) by blast
    then have "k < i" by simp
    with overflow(3) assms(3) show ?thesis by blast
  qed
qed

lemma next_run_ts_scan:
  assumes "is_valid_cron e"
  shows "\<exists>fs. (\<forall>ts. matches e ts = fields_match fs ts)
           \<and> (dt_valid (dt_whole now + 1) \<longrightarrow>
                next_run_ts e now
                  = scan fs (now\<lparr>dt_whole := dt_whole now + 1\<rparr>) 0 max_scan_seconds)
           \<and> (\<not> dt_valid (dt_whole now + 1) \<longrightarrow> next_run_ts e now = Inl OverflowError)"
proof -
  from valid_cron_sets[OF assms] obtain fs where
    fs: "cron_sets e = Some fs" "\<forall>ts. matches e ts = fields_match (add_sunday fs) ts"
    by blast
  obtain s m h d mo dw where t: "fs = (s, m, h, d, mo, dw)" by (cases fs) auto
  have 1: "dt_valid (dt_whole now + 1) \<longrightarrow>
       next_run_ts e now
         = scan (add_sunday fs) (now\<lparr>dt_whole := dt_whole now + 1\<rparr>) 0 max_scan_seconds"
    using fs(1) unfolding t
    by (simp add: next_run_ts_def add_sunday_def dt_add_seconds_def Let_def)
  have 2: "\<not> dt_valid (dt_whole now + 1) \<longrightarrow> next_run_ts e now = Inl OverflowError"
    using fs(1) unfolding t
    by (simp add: next_run_ts_def dt_add_seconds_def Let_def)
  from fs(2) 1 2 show ?thesis by blast
qed

lemma next_run_ts_at:
  assumes "is_valid_cron e" and "k < max_scan_seconds"
    and "\<forall>j\<le>k. dt_valid (dt_whole now + 1 + int j)"
    and "matches e (dt_whole now + 1 + int k)"
    and "\<forall>j<k. \<not> matches e (dt_whole now + 1 + int j)"
  shows "next_run_ts e now
           = Inr (timestamp_int \<lparr>dt_whole = dt_whole now + 1 + int k, dt_micro = dt_micro now\<rparr>)"
proof -
  from next_run_ts_scan[OF assms(1), of now] obtain fs where
    fs: "\<forall>ts. matches e ts = fields_match fs ts"
      "dt_valid (dt_whole now + 1) \<longrightarrow>
         next_run_ts e now = scan fs (now\<lparr>dt_whole := dt_whole now + 1\<rparr>) 0 max_scan_seconds"
    by blast
  let ?start = "now\<lparr>dt_whole := dt_whole now + 1\<rparr>"
  from assms(3) have "dt_valid (dt_whole now + 1)" by force
  with fs(2) have r: "next_run_ts e now = scan fs ?start 0 max_scan_seconds" by simp
  have "scan fs ?start 0 max_scan_seconds
          = Inr (timestamp_int (?start\<lparr>dt_whole := dt_whole ?start + int (0 + k)\<rparr>))"
    using assms(2-5) fs(1) by (intro scan_first) simp_all
  with r show ?thesis by (cases now) simp
qed

text \<open>
  C10. An expression that \<open>is_valid_cron\<close> rejects, because it does not split into six
  fields or because one of its fields expands to the empty set, matches no instant:
  \<open>_matches\<close> returns \<open>False\<close>. It returns for every input, its \<open>try\<close> block catching
  what could be raised, so such an expression never fires a schedule in the tick loop.
\<close>

theorem invalid_cron_never_matches:
  "\<not> is_valid_cron e \<Longrightarrow> matches e dt = False"
  using invalid_no_match[of e dt] by simp

theorem invalid_cron_never_matches_witness:
  "\<not> is_valid_cron ''61 * * * * *'' \<and> matches ''61 * * * * *'' 1709222400 = False"
proof -
  have h: "\<not> is_valid_cron ''61 * * * * *''" by code_simp
  show ?thesis using h invalid_cron_never_matches[OF h, of 1709222400] by simp
qed

text \<open>
  C1, as the code has it. The reference \<open>now\<close> is a datetime with its microsecond, and
  the instants tested are \<open>now\<close> plus 1, 2, ... seconds, 2678400 of them (31 days) at
  most; what is tested of each is its whole second. For a valid expression one of
  three things happens. The search finds the least whole second \<open>s\<close> after \<open>now\<close>, at
  most 31 days after it, that the expression matches, and returns
  \<open>int(dt.timestamp())\<close> of that instant taken with the microsecond of \<open>now\<close>; this value
  is \<open>s\<close> itself whenever \<open>now\<close> has no fraction of a second, or lies at or after the
  epoch with the 31 days after it before second \<open>2 ^ 34\<close> (in the year 2514). Or the
  search returns 0, the answer for no match found, and no whole second of that window
  matches. Or it raises \<open>OverflowError\<close>: then the window reaches beyond the last
  datetime, the end of the year 9999, and no whole second after \<open>now\<close> up to that end
  matches.
\<close>

theorem next_run_ts_first_match:
  assumes "is_valid_cron e" and "dt_ok now"
  shows "(\<exists>s. next_run_ts e now = Inr (timestamp_int (now\<lparr>dt_whole := s\<rparr>))
            \<and> dt_whole now < s \<and> s \<le> dt_whole now + int max_scan_seconds \<and> matches e s
            \<and> (\<forall>s'. dt_whole now < s' \<and> s' < s \<longrightarrow> \<not> matches e s')
            \<and> (dt_micro now = 0
                 \<or> (0 \<le> dt_whole now \<and> dt_whole now + int max_scan_seconds < 2 ^ 34)
                \<longrightarrow> timestamp_int (now\<lparr>dt_whole := s\<rparr>) = s))
       \<or> (next_run_ts e now = Inr 0
            \<and> (\<forall>s. dt_whole now < s \<and> s \<le> dt_whole now + int max_scan_seconds
                   \<longrightarrow> \<not> matches e s))
       \<or> (next_run_ts e now = Inl OverflowError
            \<and> \<not> dt_valid (dt_whole now + int max_scan_seconds)
            \<and> (\<forall>s. dt_whole now < s \<and> dt_valid s \<longrightarrow> \<not> matches e s))"
proof -
  let ?N = max_scan_seconds
  let ?w = "dt_whole now"
  have pos: "0 < ?N" by (simp add: max_scan_seconds_def)
  from assms(2) have vw: "dt_valid ?w" and mu: "0 \<le> dt_micro now" "dt_micro now < 1000000"
    by (simp_all add: dt_ok_def)
  from next_run_ts_scan[OF assms(1), of now] obtain fs where
    fs: "\<forall>ts. matches e ts = fields_match fs ts"
      "dt_valid (?w + 1) \<longrightarrow>
         next_run_ts e now = scan fs (now\<lparr>dt_whole := ?w + 1\<rparr>) 0 ?N"
      "\<not> dt_valid (?w + 1) \<longrightarrow> next_run_ts e now = Inl OverflowError"
    by blast
  have beyond: "\<not> dt_valid (?w + int ?N) \<and> (\<forall>s. ?w + 1 + int k \<le> s \<longrightarrow> \<not> dt_valid s)"
    if "k < ?N" "\<not> dt_valid (?w + 1 + int k)" for k
    using that vw by (auto simp: dt_valid_def local_seconds_def)
  let ?start = "now\<lparr>dt_whole := ?w + 1\<rparr>"
  let ?R = "\<lambda>i. dt_valid (dt_whole ?start + int (0 + i))
                \<and> \<not> fields_match fs (dt_whole ?start + int (0 + i))"
  show ?thesis
  proof (cases "dt_valid (?w + 1)")
    case False
    with fs(3) have r: "next_run_ts e now = Inl OverflowError" by simp
    from beyond[of 0] pos False
    have "\<not> dt_valid (?w + int ?N)" and "\<forall>s. ?w + 1 \<le> s \<longrightarrow> \<not> dt_valid s" by simp_all
    then have "\<not> dt_valid (?w + int ?N) \<and> (\<forall>s. ?w < s \<and> dt_valid s \<longrightarrow> \<not> matches e s)"
      by auto
    with r show ?thesis by blast
  next
    case True
    with fs(2) have r: "next_run_ts e now = scan fs ?start 0 ?N" by simp
    from scan_cases[of ?N fs ?start 0] consider
      (found) k where "k < ?N"
        "scan fs ?start 0 ?N
           = Inr (timestamp_int (?start\<lparr>dt_whole := dt_whole ?start + int (0 + k)\<rparr>))"
        "dt_valid (dt_whole ?start + int (0 + k))"
        "fields_match fs (dt_whole ?start + int (0 + k))" "\<forall>j<k. ?R j"
      | (none) "scan fs ?start 0 ?N = Inr 0" "\<forall>k<?N. ?R k"
      | (overflow) k where "k < ?N" "scan fs ?start 0 ?N = Inl OverflowError"
        "\<not> dt_valid (dt_whole ?start + int (0 + k))" "\<forall>j<k. ?R j"
      by blast
    then show ?thesis
    proof cases
      case found
      let ?s = "?w + 1 + int k"
      let ?dt = "now\<lparr>dt_whole := ?s\<rparr>"
      have w: "dt_whole ?dt = ?s" and u: "dt_micro ?dt = dt_micro now" by simp_all
      have ts: "dt_micro now = 0 \<or> (0 \<le> ?w \<and> ?w + int ?N < 2 ^ 34)
                  \<longrightarrow> timestamp_int ?dt = ?s"
      proof (intro impI)
        assume c: "dt_micro now = 0 \<or> (0 \<le> ?w \<and> ?w + int ?N < 2 ^ 34)"
        show "timestamp_int ?dt = ?s"
        proof (cases "dt_micro now = 0")
          case True
          from found(3) have "\<bar>?s\<bar> < 2 ^ 53" by (intro dt_valid_magnitude) simp
          with timestamp_whole[of ?dt] True w u show ?thesis by simp
        next
          case False
          with c have b: "0 \<le> ?w" "?w + int ?N < 2 ^ 34" by simp_all
          from b found(1) have "0 \<le> ?s" "?s < 2 ^ 34" by simp_all
          with timestamp_frac[of ?dt] mu w u show ?thesis by simp
        qed
      qed
      from found(2) r have res: "next_run_ts e now = Inr (timestamp_int ?dt)" by simp
      have m: "matches e ?s" using found(4) fs(1) by simp
      have n: "\<forall>s'. ?w < s' \<and> s' < ?s \<longrightarrow> \<not> matches e s'"
      proof (intro allI impI)
        fix s assume s: "?w < s \<and> s < ?s"
        then have "nat (s - ?w - 1) < k" and "s = dt_whole ?start + int (0 + nat (s - ?w - 1))"
          by auto
        with found(5) fs(1) show "\<not> matches e s" by metis
      qed
      have b: "?w < ?s" "?s \<le> ?w + int ?N" using found(1) by simp_all
      show ?thesis
        by (rule disjI1, rule exI[of _ ?s]) (intro conjI res b m n ts)
    next
      case none
      have "\<forall>s. ?w < s \<and> s \<le> ?w + int ?N \<longrightarrow> \<not> matches e s"
      proof (intro allI impI)
        fix s assume s: "?w < s \<and> s \<le> ?w + int ?N"
        then have "nat (s - ?w - 1) < ?N" and "s = dt_whole ?start + int (0 + nat (s - ?w - 1))"
          by auto
        with none(2) fs(1) show "\<not> matches e s" by metis
      qed
      with none(1) r show ?thesis by simp
    next
      case overflow
      from overflow(3) have inv: "\<not> dt_valid (?w + 1 + int k)" by simp
      from beyond[OF overflow(1) inv]
      have b1: "\<not> dt_valid (?w + int ?N)" and b2: "\<forall>s. ?w + 1 + int k \<le> s \<longrightarrow> \<not> dt_valid s"
        by simp_all
      have "\<forall>s. ?w < s \<and> dt_valid s \<longrightarrow> \<not> matches e s"
      proof (intro allI impI)
        fix s assume s: "?w < s \<and> dt_valid s"
        with b2 have "\<not> ?w + 1 + int k \<le> s" by blast
        then have "s < ?w + 1 + int k" by simp
        with s have "nat (s - ?w - 1) < k" and "s = dt_whole ?start + int (0 + nat (s - ?w - 1))"
          by auto
        with overflow(4) fs(1) show "\<not> matches e s" by metis
      qed
      with overflow(2) r b1 show ?thesis by simp
    qed
  qed
qed

theorem next_run_ts_first_match_witness:
  "is_valid_cron ''*/5 * * * * *'' \<and> dt_ok \<lparr>dt_whole = 1709222401, dt_micro = 250000\<rparr>
   \<and> (0::int) \<le> 1709222401 \<and> 1709222401 + int max_scan_seconds < 2 ^ 34
   \<and> next_run_ts ''*/5 * * * * *'' \<lparr>dt_whole = 1709222401, dt_micro = 250000\<rparr>
       = Inr 1709222405
   \<and> matches ''*/5 * * * * *'' 1709222405
   \<and> \<not> matches ''*/5 * * * * *'' 1709222402 \<and> \<not> matches ''*/5 * * * * *'' 1709222403
   \<and> \<not> matches ''*/5 * * * * *'' 1709222404"
proof -
  let ?e = "''*/5 * * * * *''"
  let ?now = "\<lparr>dt_whole = 1709222401, dt_micro = 250000\<rparr>"
  have h1: "is_valid_cron ?e" by code_simp
  have h2: "dt_ok ?now"
    by (simp add: dt_ok_def dt_valid_def local_seconds_def tz_offset_def)
  have h3: "(0::int) \<le> 1709222401" "1709222401 + int max_scan_seconds < 2 ^ 34"
    by (simp_all add: max_scan_seconds_def)
  have v: "dt_valid (1709222401 + int max_scan_seconds)"
    by (simp add: dt_valid_def local_seconds_def tz_offset_def max_scan_seconds_def)
  have m: "matches ?e 1709222405" by code_simp
  have n: "\<not> matches ?e 1709222402" "\<not> matches ?e 1709222403" "\<not> matches ?e 1709222404"
    by code_simp+
  have w: "1709222405 \<le> 1709222401 + int max_scan_seconds"
    by (simp add: max_scan_seconds_def)
  from next_run_ts_first_match[OF h1 h2] consider
    (found) s where "next_run_ts ?e ?now = Inr (timestamp_int (?now\<lparr>dt_whole := s\<rparr>))"
      "1709222401 < s" "matches ?e s"
      "\<forall>s'. 1709222401 < s' \<and> s' < s \<longrightarrow> \<not> matches ?e s'"
      "(0::int) \<le> 1709222401 \<and> 1709222401 + int max_scan_seconds < 2 ^ 34
         \<longrightarrow> timestamp_int (?now\<lparr>dt_whole := s\<rparr>) = s"
    | (none) "\<forall>s. 1709222401 < s \<and> s \<le> 1709222401 + int max_scan_seconds \<longrightarrow> \<not> matches ?e s"
    | (overflow) "\<not> dt_valid (1709222401 + int max_scan_seconds)"
    by auto
  then have "next_run_ts ?e ?now = Inr 1709222405"
  proof cases
    case found
    have "\<not> (1709222405 < s)" using found(4) m by auto
    moreover have "s \<noteq> 1709222402" "s \<noteq> 1709222403" "s \<noteq> 1709222404"
      using found(3) n by auto
    ultimately have "s = 1709222405" using found(2) by arith
    with found(1,5) h3 show ?thesis by simp
  next
    case none
    from none[rule_format, of 1709222405] m w show ?thesis by simp
  next
    case overflow
    with v show ?thesis by simp
  qed
  with h1 h2 h3 m n show ?thesis by simp
qed

text \<open>
  Three runs where the value returned is not a matched instant after the reference.
  The expression \<open>0 0 0 30 2 *\<close> (midnight of 30 February) is valid, and from
  2024-03-01 00:00:00 (+8:00) the search returns 0, which is not after the reference
  and which the expression does not match. Before the epoch a fraction of a second
  moves the result to the next second: from 1970-01-01 07:59:01.5 (+8:00) the
  expression \<open>2 * * * * *\<close> matches the instant 07:59:02.5, second -58, and the result
  is -57, which it does not match. Far in the future the double rounds up: from
  9999-11-01 00:00:00.999999 (+8:00) the same expression matches second 253397001602
  and the result is 253397001603.
\<close>

lemma feb30_parts:
  "map py_strip (py_split (py_strip ''0 0 0 30 2 *'')) = [''0'', ''0'', ''0'', ''30'', ''2'', ''*'']"
  by code_simp

lemma field_two: "parse_field ''2'' 1 12 = {2}"
  by code_simp

lemma feb30_valid: "is_valid_cron ''0 0 0 30 2 *''"
  by code_simp

lemma feb30_month: "matches ''0 0 0 30 2 *'' s \<Longrightarrow> dt_month s = 2"
  unfolding matches_def feb30_parts by (simp add: Let_def field_two)

lemma march_ordinals: "\<forall>d \<in> set [738946..738977]. fst (snd (ord2ymd d)) \<noteq> 2"
  by code_simp

lemma march_window:
  assumes "1709222400 < s" and "s \<le> 1709222400 + int max_scan_seconds"
  shows "dt_month s \<noteq> 2"
proof -
  have "738946 \<le> dt_ordinal s \<and> dt_ordinal s \<le> 738977"
  proof -
    from assms have lo: "(1709251200::int) \<le> s + 28800" and hi: "s + 28800 \<le> (1711929600::int)"
      by (simp_all add: max_scan_seconds_def)
    have "(1709251200::int) div 86400 \<le> (s + 28800) div 86400"
      using lo by (rule zdiv_mono1) simp
    moreover have "(s + 28800) div 86400 \<le> (1711929600::int) div 86400"
      using hi by (rule zdiv_mono1) simp
    ultimately show ?thesis
      by (simp add: dt_ordinal_def local_seconds_def tz_offset_def)
  qed
  then have "dt_ordinal s \<in> set [738946..738977]"
    by (simp only: set_upto atLeastAtMost_iff)
  with march_ordinals show ?thesis unfolding dt_month_def by blast
qed

theorem next_run_ts_not_a_match_counterexample:
  "is_valid_cron ''0 0 0 30 2 *'' \<and> dt_ok \<lparr>dt_whole = 1709222400, dt_micro = 0\<rparr>
   \<and> next_run_ts ''0 0 0 30 2 *'' \<lparr>dt_whole = 1709222400, dt_micro = 0\<rparr> = Inr 0
   \<and> \<not> matches ''0 0 0 30 2 *'' 0 \<and> \<not> (1709222400 < (0::int))
   \<and> is_valid_cron ''2 * * * * *'' \<and> dt_ok \<lparr>dt_whole = - 59, dt_micro = 500000\<rparr>
   \<and> next_run_ts ''2 * * * * *'' \<lparr>dt_whole = - 59, dt_micro = 500000\<rparr> = Inr (- 57)
   \<and> matches ''2 * * * * *'' (- 58) \<and> \<not> matches ''2 * * * * *'' (- 57)
   \<and> dt_ok \<lparr>dt_whole = 253397001600, dt_micro = 999999\<rparr>
   \<and> next_run_ts ''2 * * * * *'' \<lparr>dt_whole = 253397001600, dt_micro = 999999\<rparr>
       = Inr 253397001603
   \<and> matches ''2 * * * * *'' 253397001602 \<and> \<not> matches ''2 * * * * *'' 253397001603"
proof -
  let ?N = max_scan_seconds
  let ?feb = "''0 0 0 30 2 *''"
  let ?now = "\<lparr>dt_whole = 1709222400, dt_micro = 0\<rparr>"
  have ok1: "dt_ok ?now"
    by (simp add: dt_ok_def dt_valid_def local_seconds_def tz_offset_def)
  have v: "dt_valid 1709222400" "dt_valid (1709222400 + int ?N)"
    by (simp_all add: dt_valid_def local_seconds_def tz_offset_def max_scan_seconds_def)
  have v1: "dt_valid (dt_whole ?now + 1)"
    by (simp add: dt_valid_def local_seconds_def tz_offset_def)
  from next_run_ts_scan[OF feb30_valid, of ?now] v1 obtain fs where
    fs: "next_run_ts ?feb ?now = scan fs (?now\<lparr>dt_whole := dt_whole ?now + 1\<rparr>) 0 ?N"
        "\<forall>ts. matches ?feb ts = fields_match fs ts"
    by blast
  let ?start = "?now\<lparr>dt_whole := dt_whole ?now + 1\<rparr>"
  have valid: "\<forall>k<?N. dt_valid (dt_whole ?start + int (0 + k))"
  proof (intro allI impI)
    fix k assume "k < ?N"
    then show "dt_valid (dt_whole ?start + int (0 + k))"
      using v by (rule_tac dt_valid_between[of 1709222400 "1709222400 + int ?N"]) auto
  qed
  have none: "\<forall>k<?N. \<not> fields_match fs (dt_whole ?start + int (0 + k))"
  proof (intro allI impI)
    fix k assume k: "k < ?N"
    have "dt_month (dt_whole ?start + int (0 + k)) \<noteq> 2"
      using k by (intro march_window) auto
    with feb30_month fs(2) show "\<not> fields_match fs (dt_whole ?start + int (0 + k))"
      by blast
  qed
  from scan_no_match[OF valid none] fs(1)
  have r1: "next_run_ts ?feb ?now = Inr 0" by simp
  have n1: "\<not> matches ?feb 0" by code_simp

  let ?e = "''2 * * * * *''"
  have val: "is_valid_cron ?e" by code_simp
  let ?early = "\<lparr>dt_whole = - 59, dt_micro = 500000\<rparr>"
  have ok2: "dt_ok ?early"
    by (simp add: dt_ok_def dt_valid_def local_seconds_def tz_offset_def)
  have m2: "matches ?e (- 58)" and n2: "\<not> matches ?e (- 57)" by code_simp+
  have t2: "timestamp_int \<lparr>dt_whole = - 58, dt_micro = 500000\<rparr> = - 57" by code_simp
  have "next_run_ts ?e ?early
          = Inr (timestamp_int \<lparr>dt_whole = dt_whole ?early + 1 + int 0,
                                 dt_micro = dt_micro ?early\<rparr>)"
    using val m2
    by (intro next_run_ts_at)
       (simp_all add: max_scan_seconds_def dt_valid_def local_seconds_def tz_offset_def)
  with t2 have r2: "next_run_ts ?e ?early = Inr (- 57)" by simp

  let ?late = "\<lparr>dt_whole = 253397001600, dt_micro = 999999\<rparr>"
  have ok3: "dt_ok ?late"
    by (simp add: dt_ok_def dt_valid_def local_seconds_def tz_offset_def)
  have m3: "matches ?e 253397001602" and n3: "\<not> matches ?e 253397001603"
    and n3': "\<not> matches ?e 253397001601" by code_simp+
  have t3: "timestamp_int \<lparr>dt_whole = 253397001602, dt_micro = 999999\<rparr> = 253397001603"
    by code_simp
  have "next_run_ts ?e ?late
          = Inr (timestamp_int \<lparr>dt_whole = dt_whole ?late + 1 + int 1,
                                 dt_micro = dt_micro ?late\<rparr>)"
  proof (rule next_run_ts_at[OF val])
    show "1 < max_scan_seconds" by (simp add: max_scan_seconds_def)
    show "\<forall>j\<le>1. dt_valid (dt_whole ?late + 1 + int j)"
      by (simp add: dt_valid_def local_seconds_def tz_offset_def)
    show "matches ?e (dt_whole ?late + 1 + int 1)" using m3 by simp
    show "\<forall>j<1. \<not> matches ?e (dt_whole ?late + 1 + int j)" using n3' by simp
  qed
  with t3 have r3: "next_run_ts ?e ?late = Inr 253397001603" by simp
  from feb30_valid ok1 r1 n1 val ok2 r2 m2 n2 ok3 r3 m3 n3 show ?thesis by simp
qed

section \<open>Properties of the run history\<close>

lemma length_py_last_n: "length (py_last_n n xs) \<le> n"
  by (simp add: py_last_n_def)

lemma py_last_n_append: "py_last_n n (py_last_n n xs @ ys) = py_last_n n (xs @ ys)"
  by (cases "length xs \<le> n") (auto simp: py_last_n_def add.commute)

lemma history_record_result:
  "or_empty (history (record_result s okf out t))
     = py_last_n 10 (or_empty (history s) @ [entry_of (okf, out, t)])"
  by (simp add: record_result_def or_empty_def entry_of_def Let_def)

lemma history_record_runs:
  "rs \<noteq> [] \<Longrightarrow>
   or_empty (history (record_runs s rs)) = py_last_n 10 (or_empty (history s) @ map entry_of rs)"
proof (induction rs arbitrary: s)
  case Nil
  then show ?case by simp
next
  case (Cons r rs)
  obtain okf out t where r: "r = (okf, out, t)" by (cases r) auto
  show ?case
  proof (cases "rs = []")
    case True
    then show ?thesis by (simp add: r history_record_result)
  next
    case False
    from Cons.IH[OF False, of "record_result s okf out t"]
    show ?thesis
      by (simp add: r history_record_result py_last_n_append)
  qed
qed

lemma find_index_from_found:
  "0 \<le> find_index_from i items sid \<Longrightarrow>  0 \<le> i \<Longrightarrow>
   i \<le> find_index_from i items sid \<and> nat (find_index_from i items sid - i) < length items
   \<and> sched_id (items ! nat (find_index_from i items sid - i)) = Some sid"
proof (induction items arbitrary: i)
  case Nil
  then show ?case by simp
next
  case (Cons it items)
  show ?case
  proof (cases "sched_id it = Some sid")
    case True
    then show ?thesis by simp
  next
    case False
    with Cons.prems have p: "0 \<le> find_index_from (i + 1) items sid" by simp
    from Cons.IH[OF p] Cons.prems(2) have
      ih: "i + 1 \<le> find_index_from (i + 1) items sid"
          "nat (find_index_from (i + 1) items sid - (i + 1)) < length items"
          "sched_id (items ! nat (find_index_from (i + 1) items sid - (i + 1))) = Some sid"
      by auto
    have "nat (find_index_from (i + 1) items sid - i)
          = Suc (nat (find_index_from (i + 1) items sid - (i + 1)))"
      using ih(1) by simp
    with ih False show ?thesis by simp
  qed
qed

lemma update_stored:
  assumes "update_schedule_run_state items sid t h = (True, items')"
  shows "\<exists>i<length items'. sched_id (items' ! i) = Some sid \<and> history (items' ! i) = Some h
            \<and> last_run_ts (items' ! i) = Some t \<and> length items' = length items"
proof -
  from assms have ne: "sid \<noteq> []" and idx: "0 \<le> find_index items sid"
    by (auto simp: update_schedule_run_state_def Let_def split: if_splits)
  let ?i = "nat (find_index items sid)"
  from find_index_from_found[of 0 items sid] idx
  have f: "?i < length items" "sched_id (items ! ?i) = Some sid"
    by (simp_all add: find_index_def)
  from assms ne idx have "items' = items[?i := (items ! ?i)\<lparr>last_run_ts := Some t, history := Some h\<rparr>]"
    by (auto simp: update_schedule_run_state_def Let_def split: if_splits)
  with f show ?thesis by (intro exI[of _ ?i]) simp
qed

text \<open>
  C3. Recording a run leaves a history of at most 10 entries: the old entries followed
  by the new one, cut to the last 10, so that the oldest go first. This holds after
  every run of a sequence, whatever the history was before; after 15 runs the history is
  the records of the last 10, oldest first. What \<open>update_schedule_run_state\<close> then stores
  for the schedule is this history.
\<close>

theorem history_bounded:
  "length (or_empty (history (record_result s okf out t))) \<le> 10
   \<and> or_empty (history (record_result s okf out t))
        = py_last_n 10 (or_empty (history s) @ [entry_of (okf, out, t)])
   \<and> (rs \<noteq> [] \<longrightarrow> length (or_empty (history (record_runs s rs))) \<le> 10)
   \<and> (length rs = 15 \<longrightarrow> or_empty (history (record_runs s rs)) = map entry_of (drop 5 rs))
   \<and> (record_and_store items s okf out t = (True, items') \<longrightarrow>
        (\<exists>i<length items'. sched_id (items' ! i) = sched_id s
             \<and> history (items' ! i) = history (record_result s okf out t)
             \<and> length (or_empty (history (items' ! i))) \<le> 10))"
proof (intro conjI impI)
  show "length (or_empty (history (record_result s okf out t))) \<le> 10"
    by (simp add: history_record_result length_py_last_n)
  show "or_empty (history (record_result s okf out t))
        = py_last_n 10 (or_empty (history s) @ [entry_of (okf, out, t)])"
    by (rule history_record_result)
next
  assume "rs \<noteq> []"
  then show "length (or_empty (history (record_runs s rs))) \<le> 10"
    by (simp add: history_record_runs length_py_last_n)
next
  assume l: "length rs = 15"
  then have "rs \<noteq> []" by auto
  with l show "or_empty (history (record_runs s rs)) = map entry_of (drop 5 rs)"
    by (simp add: history_record_runs py_last_n_def drop_map)
next
  assume a: "record_and_store items s okf out t = (True, items')"
  let ?s' = "record_result s okf out t"
  have h: "history ?s' = Some (or_empty (history ?s'))"
    by (simp add: record_result_def or_empty_def Let_def)
  have i: "sched_id ?s' = sched_id s" by (simp add: record_result_def Let_def)
  from a obtain sid where sid: "sched_id s = Some sid"
    by (cases "sched_id s") (auto simp: record_and_store_def i update_schedule_run_state_def Let_def)
  from a have "update_schedule_run_state items sid
        (case last_run_ts ?s' of None \<Rightarrow> 0 | Some t \<Rightarrow> t) (or_empty (history ?s')) = (True, items')"
    by (simp add: record_and_store_def Let_def i sid)
  from update_stored[OF this] obtain k where
    k: "k < length items'" "sched_id (items' ! k) = Some sid"
       "history (items' ! k) = Some (or_empty (history ?s'))" by blast
  have "length (or_empty (history (items' ! k))) \<le> 10"
    using k(3) by (simp add: or_empty_def history_record_result[unfolded or_empty_def] length_py_last_n)
  with k h sid show "\<exists>i<length items'. sched_id (items' ! i) = sched_id s
             \<and> history (items' ! i) = history (record_result s okf out t)
             \<and> length (or_empty (history (items' ! i))) \<le> 10"
    by (intro exI[of _ k]) simp
qed

theorem history_bounded_witness:
  "map (\<lambda>n. (True, ''run'', int n)) [0..<15] \<noteq> []
   \<and> length (map (\<lambda>n. (True, ''run'', int n)) [0..<15]) = 15
   \<and> record_and_store
        [\<lparr>sched_id = Some ''s1'', sched_task_id = ''t1'', sched_cron = ''* * * * * *'',
          sched_enabled = True, last_run_ts = None, history = None\<rparr>]
        \<lparr>sched_id = Some ''s1'', sched_task_id = ''t1'', sched_cron = ''* * * * * *'',
          sched_enabled = True, last_run_ts = None, history = None\<rparr> True ''done'' 7
      = (True, [\<lparr>sched_id = Some ''s1'', sched_task_id = ''t1'', sched_cron = ''* * * * * *'',
          sched_enabled = True, last_run_ts = Some 7,
          history = Some [\<lparr>entry_ts = 7, entry_ok = True, entry_output = ''done''\<rparr>]\<rparr>])
   \<and> or_empty (history (record_runs
        \<lparr>sched_id = Some ''s1'', sched_task_id = ''t1'', sched_cron = ''* * * * * *'',
          sched_enabled = True, last_run_ts = None, history = None\<rparr>
        (map (\<lambda>n. (True, ''run'', int n)) [0..<15])))
      = map entry_of (drop 5 (map (\<lambda>n. (True, ''run'', int n)) [0..<15]))
   \<and> length (or_empty (history (record_runs
        \<lparr>sched_id = Some ''s1'', sched_task_id = ''t1'', sched_cron = ''* * * * * *'',
          sched_enabled = True, last_run_ts = None, history = None\<rparr>
        (map (\<lambda>n. (True, ''run'', int n)) [0..<15])))) \<le> 10"
proof -
  let ?s = "\<lparr>sched_id = Some ''s1'', sched_task_id = ''t1'', sched_cron = ''* * * * * *'',
          sched_enabled = True, last_run_ts = None, history = None\<rparr>"
  let ?rs = "map (\<lambda>n. (True, ''run'', int n)) [0..<15]"
  let ?items' = "[\<lparr>sched_id = Some ''s1'', sched_task_id = ''t1'', sched_cron = ''* * * * * *'',
          sched_enabled = True, last_run_ts = Some 7,
          history = Some [\<lparr>entry_ts = 7, entry_ok = True, entry_output = ''done''\<rparr>]\<rparr>]"
  have h1: "?rs \<noteq> []" by simp
  have h2: "length ?rs = 15" by simp
  have h3: "record_and_store [?s] ?s True ''done'' 7 = (True, ?items')"
    by (simp add: record_and_store_def record_result_def update_schedule_run_state_def
        find_index_def or_empty_def py_last_n_def Let_def)
  from history_bounded[of ?s True "''done''" 7 ?rs "[?s]" ?items'] h1 h2 h3
  show ?thesis by blast
qed

section \<open>Properties of the session registry\<close>

lemma keys_dict_assign_fresh:
  "k \<notin> fst ` set d \<Longrightarrow> map fst (dict_assign k v d) = map fst d @ [k]"
  by (induction d) auto

lemma keys_dict_assign_present:
  "k \<in> fst ` set d \<Longrightarrow> map fst (dict_assign k v d) = map fst d"
  by (induction d) force+

lemma length_dict_assign: "length (dict_assign k v d) \<le> Suc (length d)"
  by (induction d) auto

lemma dict_del_hd:
  "d \<noteq> [] \<Longrightarrow> distinct (map fst d) \<Longrightarrow> dict_del (fst (hd d)) d = tl d"
  by (cases d) (auto simp: dict_del_def filter_id_conv rev_image_eqI)

lemma length_dict_del_hd: "d \<noteq> [] \<Longrightarrow> length (dict_del (fst (hd d)) d) < length d"
  by (cases d) (auto simp: dict_del_def less_Suc_eq_le)

lemma new_session_bound:
  assumes "length (sessions reg) \<le> MAX_SESSIONS"
  shows "length (sessions (new_session sid sz reg)) \<le> MAX_SESSIONS"
proof (cases "length (sessions reg) \<ge> MAX_SESSIONS")
  case True
  then have ne: "sessions reg \<noteq> []" by (auto simp: MAX_SESSIONS_def)
  from length_dict_del_hd[OF ne] assms
  have "length (dict_del (fst (hd (sessions reg))) (sessions reg)) < MAX_SESSIONS" by simp
  with length_dict_assign[of sid "[]" "dict_del (fst (hd (sessions reg))) (sessions reg)"] True
  show ?thesis by (simp add: new_session_def Let_def)
next
  case False
  with length_dict_assign[of sid "[]" "sessions reg"]
  show ?thesis by (simp add: new_session_def Let_def)
qed

lemma new_session_keys_full:
  assumes "distinct (map fst (sessions reg))" and "length (sessions reg) = MAX_SESSIONS"
    and "sid \<notin> fst ` set (sessions reg)"
  shows "map fst (sessions (new_session sid sz reg)) = tl (map fst (sessions reg)) @ [sid]"
proof -
  from assms(2) have ne: "sessions reg \<noteq> []" by (auto simp: MAX_SESSIONS_def)
  have d: "dict_del (fst (hd (sessions reg))) (sessions reg) = tl (sessions reg)"
    using ne assms(1) by (rule dict_del_hd)
  have "sid \<notin> fst ` set (tl (sessions reg))"
    using assms(3) ne by (cases "sessions reg") auto
  from keys_dict_assign_fresh[OF this] assms(2) d show ?thesis
    by (simp add: new_session_def Let_def map_tl)
qed

lemma new_session_keys_room:
  assumes "length (sessions reg) < MAX_SESSIONS" and "sid \<notin> fst ` set (sessions reg)"
  shows "map fst (sessions (new_session sid sz reg)) = map fst (sessions reg) @ [sid]"
  using assms keys_dict_assign_fresh[OF assms(2)] by (simp add: new_session_def Let_def)

lemma new_session_keys:
  assumes "distinct (map fst (sessions reg))" and "length (sessions reg) \<le> MAX_SESSIONS"
    and "sid \<notin> fst ` set (sessions reg)"
  shows "map fst (sessions (new_session sid sz reg))
           = py_last_n MAX_SESSIONS (map fst (sessions reg) @ [sid])"
proof (cases "length (sessions reg) = MAX_SESSIONS")
  case True
  then have ne: "sessions reg \<noteq> []" by (auto simp: MAX_SESSIONS_def)
  from new_session_keys_full[OF assms(1) True assms(3)] True ne show ?thesis
    by (cases "sessions reg") (auto simp: py_last_n_def)
next
  case False
  with assms(2) have "length (sessions reg) < MAX_SESSIONS" by simp
  from new_session_keys_room[OF this assms(3)] this show ?thesis
    by (simp add: py_last_n_def)
qed

lemma set_py_last_n: "set (py_last_n n xs) \<subseteq> set xs"
  by (simp add: py_last_n_def set_drop_subset)

lemma distinct_py_last_n: "distinct xs \<Longrightarrow> distinct (py_last_n n xs)"
  by (simp add: py_last_n_def)

lemma new_sessions_keys:
  assumes "distinct (map fst (sessions reg) @ map fst calls)"
    and "length (sessions reg) \<le> MAX_SESSIONS"
  shows "map fst (sessions (new_sessions calls reg))
           = py_last_n MAX_SESSIONS (map fst (sessions reg) @ map fst calls)"
  using assms
proof (induction calls arbitrary: reg)
  case Nil
  then show ?case by (simp add: py_last_n_def)
next
  case (Cons c calls)
  obtain sid sz where c: "c = (sid, sz)" by (cases c) auto
  let ?reg' = "new_session sid sz reg"
  have fresh: "sid \<notin> fst ` set (sessions reg)" using Cons.prems(1) by (auto simp: c)
  have d0: "distinct (map fst (sessions reg))" using Cons.prems(1) by simp
  have k: "map fst (sessions ?reg') = py_last_n MAX_SESSIONS (map fst (sessions reg) @ [sid])"
    using d0 Cons.prems(2) fresh by (rule new_session_keys)
  have b: "length (sessions ?reg') \<le> MAX_SESSIONS"
    using Cons.prems(2) by (rule new_session_bound)
  have "distinct ((map fst (sessions reg) @ [sid]) @ map fst calls)"
    using Cons.prems(1) by (simp add: c)
  then have "distinct (py_last_n MAX_SESSIONS (map fst (sessions reg) @ [sid]) @ map fst calls)"
    using set_py_last_n[of MAX_SESSIONS "map fst (sessions reg) @ [sid]"]
      distinct_py_last_n[of "map fst (sessions reg) @ [sid]" MAX_SESSIONS]
    by (simp only: distinct_append) blast
  then have d: "distinct (map fst (sessions ?reg') @ map fst calls)" by (simp only: k)
  from Cons.IH[OF d b] show ?case
    by (simp add: c k py_last_n_append)
qed

lemma new_sessions_bound:
  "length (sessions reg) \<le> MAX_SESSIONS \<Longrightarrow>
   length (sessions (new_sessions calls reg)) \<le> MAX_SESSIONS"
  by (induction calls arbitrary: reg) (auto simp: new_session_bound)

lemma new_session_offset:
  "session_offsets (new_session sid sz reg) sid = Some (case sz of Some n \<Rightarrow> n | None \<Rightarrow> 0)"
  by (simp add: new_session_def Let_def)

lemma session_record_keys:
  assumes "session_record sid off lines reg = Inr reg'"
  shows "map fst (sessions reg') = map fst (sessions reg)"
proof -
  from assms obtain old where old: "map_of (sessions reg) sid = Some old"
    by (auto simp: session_record_def split: option.splits)
  then have "sid \<in> fst ` set (sessions reg)"
    by (auto dest: map_of_SomeD intro: rev_image_eqI)
  from keys_dict_assign_present[OF this] assms old show ?thesis
    by (auto simp: session_record_def)
qed

text \<open>
  C7. A registry of at most 50 sessions still has at most 50 after \<open>new_session\<close>.
  When 50 are held and the new identifier is fresh, the keys afterwards are the old
  ones without the first, followed by the new one: the session created first is the
  one evicted. Recording a reply in a session (\<open>send_interactive\<close>) leaves the order of
  the keys as it is, so use does not change which session goes next. From the empty
  registry, a sequence of calls with distinct identifiers leaves the last 50 created,
  in the order of creation. The new session's offset is the size of the log read at
  creation, and 0 when the size cannot be read.
\<close>

theorem session_registry_fifo:
  "(length (sessions reg) \<le> MAX_SESSIONS \<longrightarrow>
      length (sessions (new_session sid sz reg)) \<le> MAX_SESSIONS)
   \<and> (distinct (map fst (sessions reg)) \<and> length (sessions reg) = MAX_SESSIONS
        \<and> sid \<notin> fst ` set (sessions reg) \<longrightarrow>
      map fst (sessions (new_session sid sz reg)) = tl (map fst (sessions reg)) @ [sid])
   \<and> session_offsets (new_session sid sz reg) sid = Some (case sz of Some n \<Rightarrow> n | None \<Rightarrow> 0)
   \<and> (session_record u off lines reg = Inr reg' \<longrightarrow>
      map fst (sessions reg') = map fst (sessions reg))
   \<and> (distinct (map fst calls) \<longrightarrow>
      length (sessions (new_sessions calls empty_registry)) \<le> MAX_SESSIONS
      \<and> map fst (sessions (new_sessions calls empty_registry))
          = py_last_n MAX_SESSIONS (map fst calls))"
proof (intro conjI impI)
  assume "length (sessions reg) \<le> MAX_SESSIONS"
  then show "length (sessions (new_session sid sz reg)) \<le> MAX_SESSIONS"
    by (rule new_session_bound)
next
  assume "distinct (map fst (sessions reg)) \<and> length (sessions reg) = MAX_SESSIONS
        \<and> sid \<notin> fst ` set (sessions reg)"
  then show "map fst (sessions (new_session sid sz reg)) = tl (map fst (sessions reg)) @ [sid]"
    using new_session_keys_full by blast
next
  show "session_offsets (new_session sid sz reg) sid = Some (case sz of Some n \<Rightarrow> n | None \<Rightarrow> 0)"
    by (rule new_session_offset)
next
  assume "session_record u off lines reg = Inr reg'"
  then show "map fst (sessions reg') = map fst (sessions reg)"
    by (rule session_record_keys)
next
  assume d: "distinct (map fst calls)"
  show "length (sessions (new_sessions calls empty_registry)) \<le> MAX_SESSIONS"
    by (rule new_sessions_bound) (simp add: empty_registry_def)
  from d show "map fst (sessions (new_sessions calls empty_registry))
          = py_last_n MAX_SESSIONS (map fst calls)"
    using new_sessions_keys[of empty_registry calls] by (simp add: empty_registry_def)
qed

theorem session_registry_fifo_witness:
  "length (sessions full_registry) \<le> MAX_SESSIONS
   \<and> distinct (map fst (sessions full_registry))
   \<and> length (sessions full_registry) = MAX_SESSIONS
   \<and> ''new'' \<notin> fst ` set (sessions full_registry)
   \<and> session_record ''s'' 5 [''hello''] full_registry
        = Inr (full_registry\<lparr>session_offsets := (session_offsets full_registry)(''s'' \<mapsto> 5),
                 sessions := dict_assign ''s'' ([] @ [''hello'']) (sessions full_registry)\<rparr>)
   \<and> distinct (map fst (map (\<lambda>n. (numbered_sid n, None :: int option)) [0..<51]))
   \<and> map fst (sessions (new_session ''new'' (Some 120) full_registry))
        = tl (map fst (sessions full_registry)) @ [''new'']
   \<and> length (sessions (new_session ''new'' (Some 120) full_registry)) \<le> MAX_SESSIONS
   \<and> session_offsets (new_session ''new'' (Some 120) full_registry) ''new'' = Some 120
   \<and> map fst (sessions (new_sessions (map (\<lambda>n. (numbered_sid n, None)) [0..<51]) empty_registry))
        = py_last_n MAX_SESSIONS (map fst (map (\<lambda>n. (numbered_sid n, None :: int option)) [0..<51]))"
proof -
  let ?reg' = "full_registry\<lparr>session_offsets := (session_offsets full_registry)(''s'' \<mapsto> 5),
                 sessions := dict_assign ''s'' ([] @ [''hello'']) (sessions full_registry)\<rparr>"
  let ?calls = "map (\<lambda>n. (numbered_sid n, None :: int option)) [0..<51]"
  have h1: "length (sessions full_registry) \<le> MAX_SESSIONS"
    and h3: "length (sessions full_registry) = MAX_SESSIONS"
    by (simp_all add: full_registry_def MAX_SESSIONS_def)
  have h2: "distinct (map fst (sessions full_registry))" by code_simp
  have h4: "''new'' \<notin> fst ` set (sessions full_registry)" by code_simp
  have h5: "session_record ''s'' 5 [''hello''] full_registry = Inr ?reg'"
    by (simp add: session_record_def full_registry_def numbered_sid_def upt_rec[of 0])
  have h6: "distinct (map fst ?calls)" by code_simp
  from session_registry_fifo[of full_registry "''new''" "Some 120" "''s''" 5 "[''hello'']" ?reg' ?calls]
    h1 h2 h3 h4 h5 h6
  show ?thesis by simp
qed

section \<open>Properties of the log tail\<close>

lemma tail_log_window:
  assumes "0 \<le> mb" and "mb \<le> alloc_max h" and "mb \<le> 2 ^ 63 - 34"
  shows "tail_log h decode (Some content) off mb =
     (let size = int (length content);
          start = (if off < 0 \<or> off > size then max 0 (size - mb) else off);
          window = take (nat mb) (drop (nat start) content)
      in Inr (start + int (length window), decode window))"
proof -
  let ?size = "int (length content)"
  let ?start = "if off < 0 \<or> off > ?size then max 0 (?size - mb) else off"
  have s: "?start \<le> ?size" using assms(1) by simp
  then have seek: "file_seek h ?size ?start = None" by (simp only: file_seek_def if_True)
  have rd: "file_read h (drop (nat ?start) content) mb
              = Inr (take (nat mb) (drop (nat ?start) content))"
    using assms by (simp add: file_read_def)
  show ?thesis
    unfolding tail_log_def Let_def option.case seek rd sum.case ..
qed

text \<open>
  C8, as the code has it. With \<open>maxBytes\<close> not negative and a buffer of \<open>maxBytes\<close>
  bytes within what the reader can allocate (at most \<open>2 ^ 63 - 34\<close> bytes, and within
  the memory of the host), \<open>tail_log\<close> reads at most \<open>maxBytes\<close> bytes in one read; it
  starts at \<open>offset\<close>, or at \<open>max(0, size - maxBytes)\<close> when \<open>offset\<close> is negative or
  beyond the size of the file. In that second case the window ends at the end of the
  file and has \<open>min(size, maxBytes)\<close> bytes: it is not empty exactly when the file is
  not empty and \<open>maxBytes\<close> is positive. No exception is raised; a missing file gives
  offset 0 and no text.
\<close>

theorem tail_log_clamped_window:
  assumes "0 \<le> mb" and "mb \<le> alloc_max h" and "mb \<le> 2 ^ 63 - 34"
  shows "tail_log h decode None off mb = Inr (0, [])
    \<and> (\<exists>start window.
         tail_log h decode (Some content) off mb
           = Inr (start + int (length window), decode window)
         \<and> start = (if off < 0 \<or> off > int (length content)
                     then max 0 (int (length content) - mb) else off)
         \<and> window = take (nat mb) (drop (nat start) content)
         \<and> int (length window) \<le> mb
         \<and> (off < 0 \<or> off > int (length content) \<longrightarrow>
               start + int (length window) = int (length content)
               \<and> int (length window) = min (int (length content)) mb))"
proof
  show "tail_log h decode None off mb = Inr (0, [])" by (simp add: tail_log_def)
  let ?start = "if off < 0 \<or> off > int (length content)
                then max 0 (int (length content) - mb) else off"
  let ?window = "take (nat mb) (drop (nat ?start) content)"
  have 1: "tail_log h decode (Some content) off mb
             = Inr (?start + int (length ?window), decode ?window)"
    using tail_log_window[OF assms, of decode content off] by (simp add: Let_def)
  have 2: "int (length ?window) \<le> mb" using assms(1) by simp
  have 3: "off < 0 \<or> off > int (length content) \<longrightarrow>
             ?start + int (length ?window) = int (length content)
             \<and> int (length ?window) = min (int (length content)) mb"
    using assms(1) by auto
  from 1 2 3 show "\<exists>start window.
         tail_log h decode (Some content) off mb
           = Inr (start + int (length window), decode window)
         \<and> start = ?start
         \<and> window = take (nat mb) (drop (nat start) content)
         \<and> int (length window) \<le> mb
         \<and> (off < 0 \<or> off > int (length content) \<longrightarrow>
               start + int (length window) = int (length content)
               \<and> int (length window) = min (int (length content)) mb)"
    by blast
qed

theorem tail_log_clamped_window_witness:
  "(0::int) \<le> 4 \<and> 4 \<le> alloc_max small_host \<and> (4::int) \<le> 2 ^ 63 - 34
   \<and> ((50::int) < 0 \<or> 50 > int (length ''hello world''))
   \<and> tail_log small_host id (Some ''hello world'') 50 4 = Inr (11, ''orld'')"
proof -
  have h: "(0::int) \<le> 4" "4 \<le> alloc_max small_host" "(4::int) \<le> 2 ^ 63 - 34"
    by (simp_all add: small_host_def)
  from tail_log_clamped_window[OF h, where decode = id and content = "''hello world''"
      and off = 50] h
  show ?thesis by auto
qed

text \<open>
  On an empty log file a stale offset is clamped to 0 and the window returned is
  empty. A \<open>maxBytes\<close> of -1 reads the whole file, eleven bytes here; one of -2 raises
  \<open>ValueError\<close>; one of \<open>2 ^ 63\<close> raises \<open>OverflowError\<close>; and one of \<open>2 ^ 40\<close> raises
  \<open>MemoryError\<close> on a host that cannot allocate a buffer of that size.
\<close>

theorem tail_log_empty_or_raises_counterexample:
  "tail_log small_host id (Some []) 5 32000 = Inr (0, [])
   \<and> tail_log small_host id (Some ''hello world'') 0 (- 1) = Inr (11, ''hello world'')
   \<and> tail_log small_host id (Some ''hello world'') 0 (- 2) = Inl ValueError
   \<and> tail_log small_host id (Some ''hello world'') 0 (2 ^ 63) = Inl OverflowError
   \<and> tail_log small_host id (Some ''hello world'') 0 (2 ^ 40) = Inl MemoryError"
  by (simp add: tail_log_def file_seek_def file_read_def small_host_def)

section \<open>Properties of stopping the process\<close>



lemma stop_sigterm_fails:
  assumes "status env s = ((running, Some pid), s0)" and "pid \<noteq> 0"
    and "\<not> kill_ok env (trace s0) pid SIGTERM"
  shows "stop env s = ((False, Stop_failed), s0\<lparr>trace := trace s0 @ [Kill pid SIGTERM]\<rparr>)"
  using assms by (simp add: stop_def os_kill_def)




section \<open>Properties of the step interpreter\<close>








subsection \<open>Templates\<close>









subsection \<open>Key events and pauses\<close>

lemma keycode_prefix_chars: "list_all (\<lambda>c. is_digit c \<or> keycode_char c) ''KEYCODE_''"
  by code_simp

lemma valid_key_chars:
  assumes "fullmatch_digits k \<or> fullmatch_keycode k"
  shows "list_all (\<lambda>c. is_digit c \<or> keycode_char c) k"
  using assms
proof
  assume "fullmatch_digits k"
  then show ?thesis by (auto simp: fullmatch_digits_def list_all_iff)
next
  assume a: "fullmatch_keycode k"
  have "k = take 8 k @ drop 8 k" by simp
  moreover have "list_all (\<lambda>c. is_digit c \<or> keycode_char c) (take 8 k)"
    using a keycode_prefix_chars by (simp add: fullmatch_keycode_def)
  moreover have "list_all (\<lambda>c. is_digit c \<or> keycode_char c) (drop 8 k)"
    using a by (auto simp: fullmatch_keycode_def list_all_iff)
  ultimately show ?thesis by (metis list_all_append)
qed

lemma run_adb_world:
  "snd (run_adb env args dev w) = w
   \<or> snd (run_adb env args dev w) = w @ [Adb (adb_base_args dev @ map py_str args)]"
  by (auto simp: run_adb_def Let_def split: adb_outcome.splits)

lemma shell_argv_world:
  "snd (shell_argv env argv dev w) = w
   \<or> snd (shell_argv env argv dev w) = w @ [Adb (adb_base_args dev @ ''shell'' # map py_str argv)]"
  using run_adb_world[of env "VStr ''shell'' # argv" dev w]
  by (auto simp: shell_argv_def split: prod.splits)

text \<open>
  C6, as the code has it. \<open>keyevent\<close> takes \<open>str\<close> of its key and strips the white space
  around it. When the result is neither a run of digits nor \<open>KEYCODE_\<close> followed by
  capitals, digits and underscores, it fails with \<open>invalid keyevent\<close> and starts no
  command. Otherwise it runs \<open>input keyevent\<close> with the stripped key, whose characters
  are all capitals, digits or underscores. So the only command it can start is that
  one. \<open>3;rm -rf /\<close> fails without a command; \<open>66\<close> and \<open>KEYCODE_HOME\<close> pass.
\<close>

theorem keyevent_guard:
  assumes "k = py_strip (py_str (py_or key0 (VStr [])))"
  shows "(\<not> (fullmatch_digits k \<or> fullmatch_keycode k) \<longrightarrow>
            keyevent env key0 dev w = ((False, ''invalid keyevent''), w))
     \<and> (fullmatch_digits k \<or> fullmatch_keycode k \<longrightarrow>
            keyevent env key0 dev w
              = shell_argv env [VStr ''input'', VStr ''keyevent'', VStr k] dev w
            \<and> list_all (\<lambda>c. is_digit c \<or> keycode_char c) k)
     \<and> (snd (keyevent env key0 dev w) = w
          \<or> snd (keyevent env key0 dev w)
               = w @ [Adb (adb_base_args dev @ [''shell'', ''input'', ''keyevent'', k])])"
proof (intro conjI impI)
  assume "\<not> (fullmatch_digits k \<or> fullmatch_keycode k)"
  then show "keyevent env key0 dev w = ((False, ''invalid keyevent''), w)"
    using assms by (simp add: keyevent_def Let_def)
next
  assume v: "fullmatch_digits k \<or> fullmatch_keycode k"
  then have "k \<noteq> []" by (auto simp: fullmatch_digits_def fullmatch_keycode_def)
  with v show "keyevent env key0 dev w
              = shell_argv env [VStr ''input'', VStr ''keyevent'', VStr k] dev w"
    using assms by (simp add: keyevent_def Let_def)
  from v show "list_all (\<lambda>c. is_digit c \<or> keycode_char c) k" by (rule valid_key_chars)
next
  show "snd (keyevent env key0 dev w) = w
          \<or> snd (keyevent env key0 dev w)
               = w @ [Adb (adb_base_args dev @ [''shell'', ''input'', ''keyevent'', k])]"
    using shell_argv_world[of env "[VStr ''input'', VStr ''keyevent'', VStr k]" dev w] assms
    by (auto simp: keyevent_def Let_def)
qed

theorem keyevent_guard_witness:
  "''KEYCODE_HOME'' = py_strip (py_str (py_or (VStr ''KEYCODE_HOME'') (VStr [])))
   \<and> ''66'' = py_strip (py_str (py_or (VStr ''66'') (VStr [])))
   \<and> ''3;rm -rf /'' = py_strip (py_str (py_or (VStr ''3;rm -rf /'') (VStr [])))
   \<and> fullmatch_keycode ''KEYCODE_HOME'' \<and> fullmatch_digits ''66''
   \<and> \<not> (fullmatch_digits ''3;rm -rf /'' \<or> fullmatch_keycode ''3;rm -rf /'')
   \<and> keyevent quiet_env (VStr ''3;rm -rf /'') None [] = ((False, ''invalid keyevent''), [])
   \<and> keyevent quiet_env (VStr ''KEYCODE_HOME'') None []
        = shell_argv quiet_env [VStr ''input'', VStr ''keyevent'', VStr ''KEYCODE_HOME''] None []
   \<and> keyevent quiet_env (VStr ''66'') None []
        = shell_argv quiet_env [VStr ''input'', VStr ''keyevent'', VStr ''66''] None []"
proof -
  have k1: "''KEYCODE_HOME'' = py_strip (py_str (py_or (VStr ''KEYCODE_HOME'') (VStr [])))"
    and k2: "''66'' = py_strip (py_str (py_or (VStr ''66'') (VStr [])))"
    and k3: "''3;rm -rf /'' = py_strip (py_str (py_or (VStr ''3;rm -rf /'') (VStr [])))"
    by code_simp+
  have v1: "fullmatch_keycode ''KEYCODE_HOME''" and v2: "fullmatch_digits ''66''"
    and v3: "\<not> (fullmatch_digits ''3;rm -rf /'' \<or> fullmatch_keycode ''3;rm -rf /'')"
    by code_simp+
  from keyevent_guard[OF k3, of quiet_env None "[]"] v3
  have a: "keyevent quiet_env (VStr ''3;rm -rf /'') None [] = ((False, ''invalid keyevent''), [])"
    by blast
  from keyevent_guard[OF k1, of quiet_env None "[]"] v1
  have b: "keyevent quiet_env (VStr ''KEYCODE_HOME'') None []
        = shell_argv quiet_env [VStr ''input'', VStr ''keyevent'', VStr ''KEYCODE_HOME''] None []"
    by blast
  from keyevent_guard[OF k2, of quiet_env None "[]"] v2
  have c: "keyevent quiet_env (VStr ''66'') None []
        = shell_argv quiet_env [VStr ''input'', VStr ''keyevent'', VStr ''66''] None []"
    by blast
  from k1 k2 k3 v1 v2 v3 a b c show ?thesis by blast
qed

text \<open>
  A key with white space around it does not match either pattern as it stands, and
  its command is started all the same, with the white space gone.
\<close>

theorem keyevent_padded_token_counterexample:
  "\<not> fullmatch_digits '' 66'' \<and> \<not> fullmatch_keycode '' 66''
   \<and> keyevent quiet_env (VStr '' 66'') None []
       = ((True, []), [Adb [''adb'', ''shell'', ''input'', ''keyevent'', ''66'']])"
  by code_simp

lemma show_500: "show_int 500 = ''500''"
  by code_simp

text \<open>
  C9, as the code has it. A step of type \<open>sleep\<close> without an \<open>ms\<close> field pauses 500
  milliseconds. With an \<open>ms\<close> field that renders to a value that is not empty, zero or
  \<open>null\<close> and that \<open>int\<close> accepts, it pauses that many milliseconds, none when the
  number is negative. This holds when \<open>time.sleep\<close> accepts the pause: it is at most
  9223372036854 milliseconds and within what the clock of the host accepts. In both
  cases the step returns success and the text \<open>sleep <ms>ms\<close>.
\<close>

theorem sleep_step_pauses:
  assumes "step ''type'' = Some (VStr ''sleep'')"
  shows "(step ''ms'' = None \<and> 500 \<le> sleep_max env w \<longrightarrow>
            run_step env step params dev w = (Inr (True, VStr ''sleep 500ms''), w @ [Pause 500]))
     \<and> (step ''ms'' = Some v \<and> truthy (format (render env) v params)
          \<and> int_of (format (render env) v params) = Inr ms
          \<and> max ms 0 \<le> sleep_ns_max_ms \<and> max ms 0 \<le> sleep_max env w \<longrightarrow>
            run_step env step params dev w
              = (Inr (True, VStr (''sleep '' @ show_int ms @ ''ms'')), w @ [Pause (max ms 0)]))"
proof (intro conjI impI)
  have t: "dict_get step ''type'' (VStr []) = VStr ''sleep''"
    using assms by (simp add: dict_get_def)
  {
    assume "step ''ms'' = None \<and> 500 \<le> sleep_max env w"
    then show "run_step env step params dev w = (Inr (True, VStr ''sleep 500ms''), w @ [Pause 500])"
      using t by (simp add: run_step_def Let_def int_field_def dict_get_def format_def py_or_def
          bind_err_def pause_ms_def sleep_ns_max_ms_def show_500)
  }
  {
    assume a: "step ''ms'' = Some v \<and> truthy (format (render env) v params)
          \<and> int_of (format (render env) v params) = Inr ms
          \<and> max ms 0 \<le> sleep_ns_max_ms \<and> max ms 0 \<le> sleep_max env w"
    then have p: "pause_ms env ms w = Inr (w @ [Pause (max ms 0)])"
      by (simp add: pause_ms_def Let_def not_less)
    from a show "run_step env step params dev w
              = (Inr (True, VStr (''sleep '' @ show_int ms @ ''ms'')), w @ [Pause (max ms 0)])"
      using t by (simp add: run_step_def Let_def int_field_def dict_get_def py_or_def
          bind_err_def p)
  }
qed

theorem sleep_step_pauses_witness:
  "[''type'' \<mapsto> VStr ''sleep'', ''ms'' \<mapsto> VStr ''{delay}''] ''type'' = Some (VStr ''sleep'')
   \<and> [''type'' \<mapsto> VStr ''sleep'', ''ms'' \<mapsto> VStr ''{delay}''] ''ms'' = Some (VStr ''{delay}'')
   \<and> truthy (format (render quiet_env) (VStr ''{delay}'') [''delay'' \<mapsto> VInt 1500])
   \<and> int_of (format (render quiet_env) (VStr ''{delay}'') [''delay'' \<mapsto> VInt 1500]) = Inr 1500
   \<and> max 1500 0 \<le> sleep_ns_max_ms \<and> max 1500 0 \<le> sleep_max quiet_env []
   \<and> run_step quiet_env [''type'' \<mapsto> VStr ''sleep'', ''ms'' \<mapsto> VStr ''{delay}'']
        [''delay'' \<mapsto> VInt 1500] None []
       = (Inr (True, VStr (''sleep '' @ show_int 1500 @ ''ms'')), [] @ [Pause (max 1500 0)])
   \<and> [''type'' \<mapsto> VStr ''sleep''] ''type'' = Some (VStr ''sleep'')
   \<and> [''type'' \<mapsto> VStr ''sleep''] ''ms'' = None
   \<and> 500 \<le> sleep_max quiet_env []
   \<and> run_step quiet_env [''type'' \<mapsto> VStr ''sleep''] Map.empty None []
       = (Inr (True, VStr ''sleep 500ms''), [] @ [Pause 500])"
proof -
  let ?s1 = "[''type'' \<mapsto> VStr ''sleep'', ''ms'' \<mapsto> VStr ''{delay}'']"
  let ?s2 = "[''type'' \<mapsto> VStr ''sleep'']"
  let ?p = "[''delay'' \<mapsto> VInt 1500]"
  have a1: "?s1 ''type'' = Some (VStr ''sleep'')" and a2: "?s1 ''ms'' = Some (VStr ''{delay}'')"
    and b1: "?s2 ''type'' = Some (VStr ''sleep'')" and b2: "?s2 ''ms'' = None"
    by simp_all
  have a3: "truthy (format (render quiet_env) (VStr ''{delay}'') ?p)" by code_simp
  have a4: "int_of (format (render quiet_env) (VStr ''{delay}'') ?p) = Inr 1500" by code_simp
  have a5: "max 1500 0 \<le> sleep_ns_max_ms" and a6: "max 1500 0 \<le> sleep_max quiet_env []"
    and b3: "500 \<le> sleep_max quiet_env []"
    by (simp_all add: sleep_ns_max_ms_def quiet_env_def)
  from sleep_step_pauses[where step = ?s1 and v = "VStr ''{delay}''" and env = quiet_env
      and params = ?p and ms = 1500 and dev = None and w = "[]"] a1 a2 a3 a4 a5 a6
  have r1: "run_step quiet_env ?s1 ?p None []
       = (Inr (True, VStr (''sleep '' @ show_int 1500 @ ''ms'')), [] @ [Pause (max 1500 0)])"
    by blast
  from sleep_step_pauses[where step = ?s2 and v = VNone and env = quiet_env
      and params = Map.empty and ms = 0 and dev = None and w = "[]"] b1 b2 b3
  have r2: "run_step quiet_env ?s2 Map.empty None []
       = (Inr (True, VStr ''sleep 500ms''), [] @ [Pause 500])"
    by blast
  from a1 a2 a3 a4 a5 a6 b1 b2 b3 r1 r2 show ?thesis by blast
qed

text \<open>
  A duration that is not a number makes the step raise \<open>ValueError\<close>. One of ten
  million million milliseconds makes \<open>time.sleep\<close> raise \<open>OverflowError\<close>, and one that
  ends beyond what the clock of the host can express makes it raise \<open>OSError\<close>. A
  duration of zero is replaced by the default of 500 milliseconds.
\<close>

theorem sleep_step_raises_counterexample:
  "run_step quiet_env [''type'' \<mapsto> VStr ''sleep'', ''ms'' \<mapsto> VStr ''abc''] Map.empty None []
     = (Inl ValueError, [])
   \<and> run_step quiet_env [''type'' \<mapsto> VStr ''sleep'', ''ms'' \<mapsto> VInt 10000000000000]
        Map.empty None []
     = (Inl OverflowError, [])
   \<and> run_step quiet_env [''type'' \<mapsto> VStr ''sleep'', ''ms'' \<mapsto> VInt 9223372036854]
        Map.empty None []
     = (Inl OSError, [])
   \<and> run_step quiet_env [''type'' \<mapsto> VStr ''sleep'', ''ms'' \<mapsto> VInt 0] Map.empty None []
     = (Inr (True, VStr ''sleep 500ms''), [Pause 500])"
  by code_simp

end
